theory Spec2Isabelle
  imports Main "HOL-Library.Word"
begin

section \<open>JavaScript strings\<close>

text \<open>
  A JavaScript string is a sequence of UTF-16 code units; \<open>length\<close>, \<open>substring\<close>,
  \<open>trim\<close> and a regular expression without the \<open>u\<close> flag all work on code units.
\<close>

type_synonym jschar = "16 word"
type_synonym jsstring = "jschar list"

definition jc :: "char \<Rightarrow> jschar" where
  "jc c = of_char c"

definition js :: "string \<Rightarrow> jsstring" where
  "js s = map jc s"

text \<open>
  ECMAScript \<open>WhiteSpace\<close> and \<open>LineTerminator\<close> code points: what \<open>String.prototype.trim\<close>
  strips and what \<open>\s\<close> matches.
\<close>

definition isWhiteSpace :: "jschar \<Rightarrow> bool" where
  "isWhiteSpace c =
     (c = 0x9 \<or> c = 0xA \<or> c = 0xB \<or> c = 0xC \<or> c = 0xD \<or> c = 0x20 \<or> c = 0xA0 \<or>
      c = 0x1680 \<or> (0x2000 \<le> c \<and> c \<le> 0x200A) \<or> c = 0x2028 \<or> c = 0x2029 \<or>
      c = 0x202F \<or> c = 0x205F \<or> c = 0x3000 \<or> c = 0xFEFF)"

definition trim :: "jsstring \<Rightarrow> jsstring" where
  "trim s = rev (dropWhile isWhiteSpace (rev (dropWhile isWhiteSpace s)))"

definition substring0 :: "nat \<Rightarrow> jsstring \<Rightarrow> jsstring" where
  \<comment> \<open>\<open>s.substring(0, n)\<close>\<close>
  "substring0 n s = take n s"

section \<open>Regular expressions\<close>

text \<open>
  Every regular expression of the program is a sequence of single-character atoms, each
  with a greedy quantifier, optionally anchored. \<open>bt\<close> is the backtracking matcher of
  ECMAScript on that fragment: it returns the length of the first match found in priority
  order at the start of the input; the flag says that the pattern ends with \<open>$\<close>, so that
  a match must reach the end of the input.
\<close>

datatype quant = One | Opt | Star | Plus

type_synonym atom = "jschar \<Rightarrow> bool"
type_synonym pattern = "(atom \<times> quant) list"

fun bt :: "pattern \<Rightarrow> bool \<Rightarrow> jsstring \<Rightarrow> nat option" where
  "bt [] e s = (if e \<and> s \<noteq> [] then None else Some 0)"
| "bt ((a, One) # r) e [] = None"
| "bt ((a, One) # r) e (c # cs) = (if a c then map_option Suc (bt r e cs) else None)"
| "bt ((a, Opt) # r) e [] = bt r e []"
| "bt ((a, Opt) # r) e (c # cs) =
     (if a c then (case bt r e cs of Some n \<Rightarrow> Some (Suc n) | None \<Rightarrow> bt r e (c # cs))
      else bt r e (c # cs))"
| "bt ((a, Star) # r) e [] = bt r e []"
| "bt ((a, Star) # r) e (c # cs) =
     (if a c then (case bt ((a, Star) # r) e cs of Some n \<Rightarrow> Some (Suc n) | None \<Rightarrow> bt r e (c # cs))
      else bt r e (c # cs))"
| "bt ((a, Plus) # r) e [] = None"
| "bt ((a, Plus) # r) e (c # cs) =
     (if a c then map_option Suc (bt ((a, Star) # r) e cs) else None)"

text \<open>\<open>regex.test(s)\<close> for a pattern anchored at the start with \<open>^\<close>.\<close>

definition testAnchored :: "pattern \<Rightarrow> bool \<Rightarrow> jsstring \<Rightarrow> bool" where
  "testAnchored p e s = (bt p e s \<noteq> None)"

text \<open>
  \<open>s.replace(/p/g, r)\<close>: scan from the left; at a match, emit the replacement and go on
  after the match (after one more character when the match is empty), otherwise keep the
  character.
\<close>

fun replaceAll :: "pattern \<Rightarrow> jsstring \<Rightarrow> jsstring \<Rightarrow> jsstring" where
  "replaceAll p r [] = (case bt p False [] of Some n \<Rightarrow> r | None \<Rightarrow> [])"
| "replaceAll p r (c # cs) =
     (case bt p False (c # cs) of
        None \<Rightarrow> c # replaceAll p r cs
      | Some 0 \<Rightarrow> r @ c # replaceAll p r cs
      | Some (Suc n) \<Rightarrow> r @ replaceAll p r (drop n cs))"

definition chr :: "char \<Rightarrow> atom" where
  "chr x = (\<lambda>c. c = jc x)"

definition chrI :: "char \<Rightarrow> char \<Rightarrow> atom" where
  \<comment> \<open>a letter under the \<open>i\<close> flag: its lower-case and upper-case forms\<close>
  "chrI x y = (\<lambda>c. c = jc x \<or> c = jc y)"

definition lit :: "string \<Rightarrow> pattern" where
  "lit s = map (\<lambda>x. (chr x, One)) s"

section \<open>Input validation\<close>

definition notWsAt :: atom where
  \<comment> \<open>\<open>[^\s@]\<close>\<close>
  "notWsAt = (\<lambda>c. \<not> isWhiteSpace c \<and> c \<noteq> jc CHR ''@'')"

definition emailRegex :: pattern where
  \<comment> \<open>\<open>/^[^\s@]+@[^\s@]+\.[^\s@]+$/\<close>\<close>
  "emailRegex = [(notWsAt, Plus), (chr CHR ''@'', One), (notWsAt, Plus), (chr CHR ''.'', One), (notWsAt, Plus)]"

definition validateEmail :: "jsstring \<Rightarrow> bool" where
  "validateEmail email = testAnchored emailRegex True email"

definition angle :: atom where
  \<comment> \<open>\<open>[<>]\<close>\<close>
  "angle = (\<lambda>c. c = jc CHR ''<'' \<or> c = jc CHR ''>'')"

definition sanitizeInput :: "jsstring \<Rightarrow> jsstring" where
  "sanitizeInput input = trim (replaceAll [(angle, One)] [] input)"

text \<open>
  What the regular-expression fragment means, stated without backtracking: a word matches
  a pattern when it splits into one block per atom, each block made of characters of the
  atom and as long as the quantifier allows.
\<close>

fun qlen :: "quant \<Rightarrow> nat \<Rightarrow> bool" where
  "qlen One n = (n = 1)"
| "qlen Opt n = (n \<le> 1)"
| "qlen Star n = True"
| "qlen Plus n = (1 \<le> n)"

fun matches :: "pattern \<Rightarrow> jsstring \<Rightarrow> bool" where
  "matches [] w = (w = [])"
| "matches ((a, q) # r) w = (\<exists>u v. w = u @ v \<and> list_all a u \<and> qlen q (length u) \<and> matches r v)"

section \<open>Rate limiting\<close>

text \<open>
  \<open>RATE_LIMIT\<close>: at most \<open>maxRequests\<close> requests in \<open>windowMs\<close> milliseconds; the mutable
  \<open>requests\<close> map from client identifier to the recorded timestamps is the state that
  \<open>checkRateLimit\<close> takes and returns. \<open>now\<close> is the value of \<open>Date.now()\<close>.
\<close>

definition maxRequests :: nat where
  "maxRequests = 50"

definition windowMs :: int where
  "windowMs = 60000"

type_synonym rate_map = "jsstring \<rightharpoonup> int list"

definition checkRateLimit :: "jsstring \<Rightarrow> int \<Rightarrow> rate_map \<Rightarrow> bool \<times> rate_map" where
  "checkRateLimit clientId now reqs =
     (let windowStart = now - windowMs;
          reqs1 = (if reqs clientId = None then reqs(clientId \<mapsto> []) else reqs);
          requests = (case reqs1 clientId of Some r \<Rightarrow> r | None \<Rightarrow> []);
          validRequests = filter (\<lambda>time. time > windowStart) requests
      in if length validRequests \<ge> maxRequests then (False, reqs1)
         else (True, reqs1(clientId \<mapsto> validRequests @ [now])))"

text \<open>A sequence of calls, one per timestamp, threading the map; the answers in call order.\<close>

fun calls :: "jsstring \<Rightarrow> int list \<Rightarrow> rate_map \<Rightarrow> bool list \<times> rate_map" where
  "calls clientId [] reqs = ([], reqs)"
| "calls clientId (now # ts) reqs =
     (case checkRateLimit clientId now reqs of
        (g, reqs') \<Rightarrow> (case calls clientId ts reqs' of (gs, reqs'') \<Rightarrow> (g # gs, reqs'')))"

text \<open>The timestamps of the granted calls, and membership of the window that ends at \<open>now\<close>.\<close>

definition admitted :: "int list \<Rightarrow> bool list \<Rightarrow> int list" where
  "admitted ts gs = map fst (filter snd (zip ts gs))"

definition inWindow :: "int \<Rightarrow> int \<Rightarrow> bool" where
  "inWindow now t = (t > now - windowMs)"

text \<open>
  The limiter as the specification words it: a call is granted when fewer than the ceiling
  of the timestamps admitted so far lie in the window that ends now, and only a granted
  call is recorded.
\<close>

fun limiter :: "int list \<Rightarrow> int list \<Rightarrow> bool list" where
  "limiter G [] = []"
| "limiter G (t # ts) =
     (if length (filter (inWindow t) G) < maxRequests then True # limiter (G @ [t]) ts
      else False # limiter G ts)"

definition stored :: "rate_map \<Rightarrow> jsstring \<Rightarrow> int list" where
  "stored m c = (case m c of Some r \<Rightarrow> r | None \<Rightarrow> [])"

definition stored_inv :: "rate_map \<Rightarrow> jsstring \<Rightarrow> int list \<Rightarrow> bool" where
  "stored_inv m c G =
     (if G = [] then stored m c = [] else stored m c = filter (inWindow (last G)) G)"

definition windowOK :: "int list \<Rightarrow> bool" where
  "windowOK G = (\<forall>w. length (filter (\<lambda>x. w < x \<and> x \<le> w + windowMs) G) \<le> maxRequests)"

section \<open>Values, messages and the outside world\<close>

text \<open>
  The object a handler passes to \<open>JSON.stringify\<close> for its response text, and the values a
  caller can put in a tool argument (\<open>None\<close> is an absent argument). Numbers are the
  integers; the counts and sizes of the program are.
\<close>

datatype json =
    JNull
  | JBool bool
  | JNum int
  | JStr jsstring
  | JArr "json list"
  | JObj "(string \<times> json) list"

fun field :: "string \<Rightarrow> json \<Rightarrow> json option" where
  "field k (JObj kvs) = map_of kvs k"
| "field k _ = None"

fun truthy :: "json option \<Rightarrow> bool" where
  "truthy None = False"
| "truthy (Some JNull) = False"
| "truthy (Some (JBool b)) = b"
| "truthy (Some (JNum n)) = (n \<noteq> 0)"
| "truthy (Some (JStr s)) = (s \<noteq> [])"
| "truthy (Some (JArr xs)) = True"
| "truthy (Some (JObj kvs)) = True"

text \<open>Truthiness of an optional string: present and not empty.\<close>

fun truthyStr :: "jsstring option \<Rightarrow> bool" where
  "truthyStr None = False"
| "truthyStr (Some s) = (s \<noteq> [])"

text \<open>\<open>x || ''\<close> on an optional string.\<close>

fun orEmpty :: "jsstring option \<Rightarrow> jsstring" where
  "orEmpty None = []"
| "orEmpty (Some s) = s"

text \<open>The message resource of the mail API, as far as the handlers read it.\<close>

datatype body = Body (data: "jsstring option") (attachmentId: "jsstring option")

datatype header = Header (name: "jsstring option") (val: "jsstring option")

datatype part =
  Part (mimeType: "jsstring option") (filename: "jsstring option")
       (headers: "header list option") (body: "body option") (parts: "part list option")

datatype message =
  Message (threadId: "jsstring option") (snippet: "jsstring option") (payload: "part option")

text \<open>\<open>p.body?.data\<close> when it is truthy, \<open>p.body?.attachmentId\<close> likewise.\<close>

definition bodyData :: "part \<Rightarrow> jsstring option" where
  "bodyData p =
     (case body p of
        None \<Rightarrow> None
      | Some b \<Rightarrow> (case data b of None \<Rightarrow> None | Some d \<Rightarrow> if d = [] then None else Some d))"

definition bodyAttachmentId :: "part \<Rightarrow> bool" where
  "bodyAttachmentId p = (case body p of None \<Rightarrow> False | Some b \<Rightarrow> truthyStr (attachmentId b))"

text \<open>
  The calls the program makes, in order. A delete carries its outcome (\<open>Some\<close> the error
  it threw).
\<close>

datatype event =
    Audit jsstring jsstring
  | ConsoleError
  | LoadCredentials
  | LoadToken
  | ApiList jsstring nat
  | ApiGet jsstring
  | ApiDelete jsstring "jsstring option"
  | ApiSend jsstring
  | ApiAttachment jsstring jsstring
  | Mkdir jsstring
  | WriteFile jsstring "8 word list"
  | Sleep nat

text \<open>
  The mail API, the file system, the clock and the library functions the handlers call,
  over a state \<open>'w\<close> of the outside world. An error is the text \<open>${error}\<close> renders.
  \<open>base64ToString d\<close> is \<open>Buffer.from(d, 'base64').toString()\<close>, \<open>base64urlBytes d\<close> is
  \<open>Buffer.from(d, 'base64url')\<close>, \<open>toBase64url s\<close> is \<open>Buffer.from(s).toString('base64url')\<close>,
  \<open>isoNow\<close> is \<open>new Date().toISOString()\<close>.
\<close>

record 'w env =
  messages_list :: "jsstring \<Rightarrow> nat \<Rightarrow> 'w \<Rightarrow> (jsstring + jsstring option list option) \<times> 'w"
  messages_get :: "jsstring \<Rightarrow> 'w \<Rightarrow> (jsstring + message) \<times> 'w"
  messages_delete :: "jsstring \<Rightarrow> 'w \<Rightarrow> jsstring option \<times> 'w"
  messages_send :: "jsstring \<Rightarrow> 'w \<Rightarrow> (jsstring + jsstring option) \<times> 'w"
  attachments_get :: "jsstring \<Rightarrow> jsstring \<Rightarrow> 'w \<Rightarrow> (jsstring + jsstring option) \<times> 'w"
  fs_mkdir :: "jsstring \<Rightarrow> 'w \<Rightarrow> jsstring option \<times> 'w"
  fs_appendFile :: "jsstring \<Rightarrow> jsstring \<Rightarrow> 'w \<Rightarrow> jsstring option \<times> 'w"
  fs_writeFile :: "jsstring \<Rightarrow> 8 word list \<Rightarrow> 'w \<Rightarrow> jsstring option \<times> 'w"
  setTimeout :: "nat \<Rightarrow> 'w \<Rightarrow> 'w"
  isoNow :: "'w \<Rightarrow> jsstring"
  homedir :: jsstring
  path_join :: "jsstring \<Rightarrow> jsstring \<Rightarrow> jsstring"
  base64ToString :: "jsstring \<Rightarrow> jsstring"
  base64urlBytes :: "jsstring \<Rightarrow> 8 word list"
  toBase64url :: "jsstring \<Rightarrow> jsstring"

record 'w proc =
  world :: 'w
  trace :: "event list"

definition emit :: "event \<Rightarrow> 'w \<Rightarrow> 'w proc \<Rightarrow> 'w proc" where
  "emit ev w st = \<lparr>world = w, trace = trace st @ [ev]\<rparr>"

definition CONFIG_DIR :: "'w env \<Rightarrow> jsstring" where
  "CONFIG_DIR env = path_join env (homedir env) (js ''.secure-gmail-mcp'')"

definition AUDIT_LOG_PATH :: "'w env \<Rightarrow> jsstring" where
  "AUDIT_LOG_PATH env = path_join env (CONFIG_DIR env) (js ''audit.log'')"

text \<open>
  \<open>auditLog\<close>: make the directory, format the entry, append it; a failure of either step is
  caught and only reported on the console.
\<close>

definition auditLog :: "'w env \<Rightarrow> jsstring \<Rightarrow> jsstring \<Rightarrow> 'w proc \<Rightarrow> 'w proc" where
  "auditLog env level message st =
     (let st0 = emit (Audit level message) (world st) st in
      case fs_mkdir env (CONFIG_DIR env) (world st0) of
        (Some err, w1) \<Rightarrow> emit ConsoleError w1 st0
      | (None, w1) \<Rightarrow>
          (let timestamp = isoNow env w1;
               logEntry = js ''['' @ timestamp @ js ''] '' @ level @ js '': '' @ message @ [0xA]
           in case fs_appendFile env (AUDIT_LOG_PATH env) logEntry w1 of
                (Some err, w2) \<Rightarrow> emit ConsoleError w2 (st0\<lparr>world := w2\<rparr>)
              | (None, w2) \<Rightarrow> st0\<lparr>world := w2\<rparr>))"

section \<open>Small string functions\<close>

fun join :: "jsstring \<Rightarrow> jsstring list \<Rightarrow> jsstring" where
  "join sep [] = []"
| "join sep [x] = x"
| "join sep (x # y # zs) = x @ sep @ join sep (y # zs)"

fun splitOn :: "jschar \<Rightarrow> jsstring \<Rightarrow> jsstring list" where
  "splitOn c [] = [] # []"
| "splitOn c (x # xs) =
     (if x = c then [] # splitOn c xs
      else (case splitOn c xs of [] \<Rightarrow> [x] # [] | w # ws \<Rightarrow> (x # w) # ws))"

definition digit :: "nat \<Rightarrow> jschar" where
  "digit d = of_nat (48 + d)"

function showNat :: "nat \<Rightarrow> jsstring" where
  "showNat n = (if n < 10 then [digit n] else showNat (n div 10) @ [digit (n mod 10)])"
  by pat_completeness auto
termination
  by (relation "measure id") auto

declare showNat.simps [simp del]

text \<open>\<open>headers.find(h => h.name === name)?.value || ''\<close>\<close>

definition getHeader :: "header list \<Rightarrow> jsstring \<Rightarrow> jsstring" where
  "getHeader hs n =
     (case find (\<lambda>h. name h = Some n) hs of None \<Rightarrow> [] | Some h \<Rightarrow> orEmpty (val h))"

definition payloadHeaders :: "part option \<Rightarrow> header list" where
  \<comment> \<open>\<open>message.payload?.headers || []\<close>\<close>
  "payloadHeaders p =
     (case p of None \<Rightarrow> [] | Some q \<Rightarrow> (case headers q of None \<Rightarrow> [] | Some hs \<Rightarrow> hs))"

definition toList :: "header list \<Rightarrow> json" where
  \<comment> \<open>\<open>getHeader('To').split(',').map(t => t.trim())\<close>\<close>
  "toList hs = JArr (map (\<lambda>t. JStr (trim t)) (splitOn (jc CHR '','') (getHeader hs (js ''To''))))"

definition undefinedBody :: jsstring where
  \<comment> \<open>what reading \<open>.body\<close> of an undefined payload throws\<close>
  "undefinedBody = js ''TypeError: Cannot read properties of undefined (reading 'body')''"

section \<open>Reading a message\<close>

text \<open>
  \<open>extractBody\<close> of \<open>readEmail\<close>: the payload's own body data when it has some, otherwise the
  first \<open>text/plain\<close> part with body data among \<open>payload.parts\<close>, otherwise the empty string.
  \<open>scanParts\<close> is the \<open>for\<close> loop over the parts.
\<close>

fun scanParts :: "'w env \<Rightarrow> part list \<Rightarrow> jsstring" where
  "scanParts env [] = []"
| "scanParts env (p # rest) =
     (if mimeType p = Some (js ''text/plain'') then
        (case bodyData p of Some d \<Rightarrow> base64ToString env d | None \<Rightarrow> scanParts env rest)
      else scanParts env rest)"

definition extractBody :: "'w env \<Rightarrow> part \<Rightarrow> jsstring" where
  "extractBody env p =
     (case bodyData p of
        Some d \<Rightarrow> base64ToString env d
      | None \<Rightarrow> (case parts p of Some ps \<Rightarrow> scanParts env ps | None \<Rightarrow> []))"

text \<open>
  A handler returns the object of its response, or \<open>Inl\<close> the message of the \<open>Error\<close> it
  throws, and the process after it.
\<close>

definition readEmail :: "'w env \<Rightarrow> jsstring option \<Rightarrow> 'w proc \<Rightarrow> (jsstring + json) \<times> 'w proc" where
  "readEmail env messageId st =
     (if \<not> truthyStr messageId then (Inl (js ''Invalid messageId parameter''), st)
      else
        (let mid = orEmpty messageId in
         case messages_get env mid (world st) of
           (r, w) \<Rightarrow>
             (let st1 = emit (ApiGet mid) w st in
              case r of
                Inl err \<Rightarrow> (Inl (js ''Failed to read email: '' @ err), st1)
              | Inr message \<Rightarrow>
                  (let hs = payloadHeaders (payload message) in
                   case payload message of
                     None \<Rightarrow> (Inl (js ''Failed to read email: '' @ undefinedBody), st1)
                   | Some p \<Rightarrow>
                       (let body = extractBody env p in
                        (Inr (JObj
                           [(''id'', JStr mid),
                            (''threadId'', JStr (orEmpty (threadId message))),
                            (''subject'', JStr (getHeader hs (js ''Subject''))),
                            (''from'', JStr (getHeader hs (js ''From''))),
                            (''to'', toList hs),
                            (''date'', JStr (getHeader hs (js ''Date''))),
                            (''snippet'', JStr (orEmpty (snippet message))),
                            (''body'', JStr (substring0 5000 body))]), st1))))))"

section \<open>Reading a message with HTML extraction\<close>

record content =
  htmlBody :: jsstring
  textBody :: jsstring
  attachmentCount :: nat

text \<open>
  \<open>extractContent\<close> assigns the three variables of \<open>readEmailHtml\<close> while it walks the
  part tree; \<open>extractContents\<close> is its \<open>parts.forEach\<close>.
\<close>

fun extractContent :: "'w env \<Rightarrow> part \<Rightarrow> content \<Rightarrow> content"
  and extractContents :: "'w env \<Rightarrow> part list \<Rightarrow> content \<Rightarrow> content" where
  "extractContent env (Part mt fn hs b ps) c =
     (let c1 = (case bodyData (Part mt fn hs b ps) of
                  None \<Rightarrow> c
                | Some d \<Rightarrow>
                    (let content = base64ToString env d in
                     if mt = Some (js ''text/html'') then c\<lparr>htmlBody := content\<rparr>
                     else if mt = Some (js ''text/plain'') then c\<lparr>textBody := content\<rparr>
                     else c));
          c2 = (if truthyStr fn \<and> bodyAttachmentId (Part mt fn hs b ps)
                then c1\<lparr>attachmentCount := attachmentCount c1 + 1\<rparr> else c1)
      in case ps of None \<Rightarrow> c2 | Some l \<Rightarrow> extractContents env l c2)"
| "extractContents env [] c = c"
| "extractContents env (p # l) c = extractContents env l (extractContent env p c)"

definition brRegex :: pattern where
  \<comment> \<open>\<open>/<br\s*\/?>/gi\<close>\<close>
  "brRegex = [(chr CHR ''<'', One), (chrI CHR ''b'' CHR ''B'', One), (chrI CHR ''r'' CHR ''R'', One),
              (isWhiteSpace, Star), (chr CHR ''/'', Opt), (chr CHR ''>'', One)]"

definition pCloseRegex :: pattern where
  \<comment> \<open>\<open>/<\/p>/gi\<close>\<close>
  "pCloseRegex = [(chr CHR ''<'', One), (chr CHR ''/'', One), (chrI CHR ''p'' CHR ''P'', One),
                  (chr CHR ''>'', One)]"

definition tagRegex :: pattern where
  \<comment> \<open>\<open>/<[^>]*>/g\<close>\<close>
  "tagRegex = [(chr CHR ''<'', One), (\<lambda>c. c \<noteq> jc CHR ''>'', Star), (chr CHR ''>'', One)]"

definition htmlToText :: "jsstring \<Rightarrow> jsstring" where
  "htmlToText html =
     trim
      (replaceAll (lit ''&quot;'') [0x22]
        (replaceAll (lit ''&gt;'') (js ''>'')
          (replaceAll (lit ''&lt;'') (js ''<'')
            (replaceAll (lit ''&amp;'') (js ''&'')
              (replaceAll (lit ''&nbsp;'') (js '' '')
                (replaceAll tagRegex []
                  (replaceAll pCloseRegex [0xA, 0xA]
                    (replaceAll brRegex [0xA] html))))))))"

definition readableContent :: "content \<Rightarrow> jsstring" where
  "readableContent c =
     (if textBody c = [] \<and> htmlBody c \<noteq> [] then htmlToText (htmlBody c) else textBody c)"

definition noContent :: content where
  "noContent = \<lparr>htmlBody = [], textBody = [], attachmentCount = 0\<rparr>"

definition readEmailHtml :: "'w env \<Rightarrow> jsstring option \<Rightarrow> 'w proc \<Rightarrow> (jsstring + json) \<times> 'w proc" where
  "readEmailHtml env messageId st =
     (if \<not> truthyStr messageId then (Inl (js ''Invalid messageId parameter''), st)
      else
        (let mid = orEmpty messageId in
         case messages_get env mid (world st) of
           (r, w) \<Rightarrow>
             (let st1 = emit (ApiGet mid) w st in
              case r of
                Inl err \<Rightarrow> (Inl (js ''Failed to read email HTML: '' @ err), st1)
              | Inr message \<Rightarrow>
                  (let hs = payloadHeaders (payload message) in
                   case payload message of
                     None \<Rightarrow> (Inl (js ''Failed to read email HTML: '' @ undefinedBody), st1)
                   | Some p \<Rightarrow>
                       (let c = extractContent env p noContent in
                        (Inr (JObj
                           [(''id'', JStr mid),
                            (''threadId'', JStr (orEmpty (threadId message))),
                            (''subject'', JStr (getHeader hs (js ''Subject''))),
                            (''from'', JStr (getHeader hs (js ''From''))),
                            (''to'', toList hs),
                            (''date'', JStr (getHeader hs (js ''Date''))),
                            (''snippet'', JStr (orEmpty (snippet message))),
                            (''textContent'', JStr (substring0 10000 (readableContent c))),
                            (''hasHtml'', JBool (htmlBody c \<noteq> [])),
                            (''attachmentCount'', JNum (int (attachmentCount c))),
                            (''contentType'', JStr (if htmlBody c \<noteq> [] then js ''html'' else js ''text''))]),
                         st1))))))"

text \<open>
  The part tree in the order \<open>extractContent\<close> visits it, and what the walk meets there:
  the decoded bodies of a given MIME type, and the parts that count as attachments.
\<close>

fun walk :: "part \<Rightarrow> part list" and walks :: "part list \<Rightarrow> part list" where
  "walk (Part mt fn hs b ps) =
     Part mt fn hs b ps # (case ps of None \<Rightarrow> [] | Some l \<Rightarrow> walks l)"
| "walks [] = []"
| "walks (p # l) = walk p @ walks l"

definition bodiesOf :: "'w env \<Rightarrow> string \<Rightarrow> part list \<Rightarrow> jsstring list" where
  "bodiesOf env mt ps =
     map (\<lambda>p. base64ToString env (orEmpty (bodyData p)))
       (filter (\<lambda>p. bodyData p \<noteq> None \<and> mimeType p = Some (js mt)) ps)"

definition lastOr :: "jsstring \<Rightarrow> jsstring list \<Rightarrow> jsstring" where
  "lastOr d xs = (if xs = [] then d else last xs)"

definition firstOr :: "jsstring \<Rightarrow> jsstring list \<Rightarrow> jsstring" where
  "firstOr d xs = (case xs of [] \<Rightarrow> d | x # _ \<Rightarrow> x)"

definition isAttachment :: "part \<Rightarrow> bool" where
  "isAttachment p = (truthyStr (filename p) \<and> bodyAttachmentId p)"

section \<open>Sending\<close>

text \<open>
  The arguments of \<open>send_email\<close>. \<open>None\<close> is an argument that is absent or not of the
  expected shape: not an array for \<open>to\<close>, not a string for \<open>subject\<close> and \<open>body\<close>; an absent
  \<open>cc\<close> or \<open>bcc\<close> defaults to the empty array.
\<close>

record send_args =
  arg_to :: "jsstring list option"
  arg_subject :: "jsstring option"
  arg_body :: "jsstring option"
  arg_cc :: "jsstring list option"
  arg_bcc :: "jsstring list option"

definition orNil :: "jsstring list option \<Rightarrow> jsstring list" where
  "orNil x = (case x of None \<Rightarrow> [] | Some l \<Rightarrow> l)"

definition renderId :: "jsstring option \<Rightarrow> jsstring" where
  \<comment> \<open>\<open>${response.data.id}\<close>\<close>
  "renderId i = (case i of None \<Rightarrow> js ''undefined'' | Some x \<Rightarrow> x)"

definition sendEmail :: "'w env \<Rightarrow> send_args \<Rightarrow> 'w proc \<Rightarrow> (jsstring + json) \<times> 'w proc" where
  "sendEmail env args st =
     (let to = orNil (arg_to args); cc = orNil (arg_cc args); bcc = orNil (arg_bcc args);
          subject = orEmpty (arg_subject args); body = orEmpty (arg_body args)
      in
      if arg_to args = None \<or> length to = 0 then
        (Inl (js ''Recipients (to) must be a non-empty array''), st)
      else if \<not> truthyStr (arg_subject args) \<or> length subject > 255 then
        (Inl (js ''Subject must be a string with max 255 characters''), st)
      else if \<not> truthyStr (arg_body args) \<or> length body > 10000 then
        (Inl (js ''Body must be a string with max 10000 characters''), st)
      else
        (case find (\<lambda>email. \<not> validateEmail email) (to @ cc @ bcc) of
           Some email \<Rightarrow> (Inl (js ''Invalid email address: '' @ email), st)
         | None \<Rightarrow>
             (let st1 = auditLog env (js ''WARN'')
                          (js ''Email send attempt - To: '' @ join (js '', '') to @
                           js '', Subject: '' @ subject) st;
                  emailLines =
                    [js ''To: '' @ join (js '', '') to] @
                    (if length cc > 0 then [js ''Cc: '' @ join (js '', '') cc] else []) @
                    (if length bcc > 0 then [js ''Bcc: '' @ join (js '', '') bcc] else []) @
                    [js ''Subject: '' @ sanitizeInput subject,
                     js ''Content-Type: text/plain; charset=utf-8'',
                     [],
                     sanitizeInput body];
                  email = join [0xA] emailLines;
                  encodedEmail = toBase64url env email
              in case messages_send env encodedEmail (world st1) of
                   (r, w) \<Rightarrow>
                     (let st2 = emit (ApiSend encodedEmail) w st1 in
                      case r of
                        Inl err \<Rightarrow>
                          (Inl (js ''Failed to send email: '' @ err),
                           auditLog env (js ''ERROR'') (js ''Email send failed: '' @ err) st2)
                      | Inr i \<Rightarrow>
                          (let st3 = auditLog env (js ''INFO'')
                                       (js ''Email sent successfully - ID: '' @ renderId i) st2
                           in (Inr (JObj
                                 ([(''success'', JBool True)] @
                                  (case i of None \<Rightarrow> [] | Some x \<Rightarrow> [(''messageId'', JStr x)]) @
                                  [(''to'', JArr (map JStr to)),
                                   (''subject'', JStr (sanitizeInput subject)),
                                   (''timestamp'', JStr (isoNow env (world st3)))])),
                               st3))))))"

section \<open>Downloading an attachment\<close>


definition downloadFail :: "'w env \<Rightarrow> jsstring \<Rightarrow> 'w proc \<Rightarrow> (jsstring + json) \<times> 'w proc" where
  \<comment> \<open>the \<open>catch\<close> block\<close>
  "downloadFail env err st =
     (Inl (js ''Failed to download attachment: '' @ err),
      auditLog env (js ''ERROR'') (js ''Failed to download attachment: '' @ err) st)"


section \<open>Emptying the spam folder\<close>

text \<open>
  The inner loop over one batch: a message without an id is skipped, a delete that throws
  is logged, a delete that returns is counted.
\<close>

fun deleteBatch :: "'w env \<Rightarrow> jsstring option list \<Rightarrow> nat \<times> 'w proc \<Rightarrow> nat \<times> 'w proc" where
  "deleteBatch env [] (deletedCount, st) = (deletedCount, st)"
| "deleteBatch env (m # ms) (deletedCount, st) =
     (if truthyStr m then
        (let i = orEmpty m in
         case messages_delete env i (world st) of
           (None, w) \<Rightarrow> deleteBatch env ms (deletedCount + 1, emit (ApiDelete i None) w st)
         | (Some err, w) \<Rightarrow>
             deleteBatch env ms
               (deletedCount,
                auditLog env (js ''ERROR'')
                  (js ''Failed to delete spam email '' @ i @ js '': '' @ err)
                  (emit (ApiDelete i (Some err)) w st)))
      else deleteBatch env ms (deletedCount, st))"

definition batchSize :: nat where
  "batchSize = 50"

definition slice :: "'a list \<Rightarrow> nat \<Rightarrow> nat \<Rightarrow> 'a list" where
  \<comment> \<open>\<open>xs.slice(i, j)\<close> for \<open>0 \<le> i \<le> j\<close>\<close>
  "slice xs i j = take (j - i) (drop i xs)"

text \<open>The outer loop \<open>for (let i = 0; i < spamMessages.length; i += batchSize)\<close>.\<close>

function spamLoop ::
  "'w env \<Rightarrow> jsstring option list \<Rightarrow> nat \<Rightarrow> nat \<times> 'w proc \<Rightarrow> nat \<times> 'w proc" where
  "spamLoop env spamMessages i acc =
     (if i < length spamMessages then
        (let batch = slice spamMessages i (i + batchSize);
             (deletedCount, st) = deleteBatch env batch acc;
             st' = (if i + batchSize < length spamMessages
                    then emit (Sleep 1000) (setTimeout env 1000 (world st)) st else st)
         in spamLoop env spamMessages (i + batchSize) (deletedCount, st'))
      else acc)"
  by pat_completeness auto
termination
  by (relation "measure (\<lambda>(env, spamMessages, i, acc). length spamMessages - i)")
     (auto simp: batchSize_def)

declare spamLoop.simps [simp del]

definition emptySpam :: "'w env \<Rightarrow> json option \<Rightarrow> 'w proc \<Rightarrow> (jsstring + json) \<times> 'w proc" where
  "emptySpam env confirm st =
     (if \<not> truthy confirm then
        (Inr (JObj
           [(''error'', JStr (js ''Confirmation required'')),
            (''message'', JStr (js ''To empty spam, you must set confirm: true'')),
            (''warning'', JStr (js ''This will permanently delete ALL emails in spam folder''))]),
         st)
      else
        (let st1 = auditLog env (js ''WARN'') (js ''Starting spam folder cleanup - USER INITIATED'') st in
         case messages_list env (js ''in:spam'') 500 (world st1) of
           (r, w) \<Rightarrow>
             (let st2 = emit (ApiList (js ''in:spam'') 500) w st1 in
              case r of
                Inl err \<Rightarrow>
                  (Inl (js ''Failed to empty spam folder: '' @ err),
                   auditLog env (js ''ERROR'') (js ''Failed to empty spam folder: '' @ err) st2)
              | Inr ms \<Rightarrow>
                  (let spamMessages = (case ms of None \<Rightarrow> [] | Some l \<Rightarrow> l) in
                   if length spamMessages = 0 then
                     (Inr (JObj
                        [(''success'', JBool True),
                         (''message'', JStr (js ''Spam folder is already empty'')),
                         (''deletedCount'', JNum 0)]),
                      auditLog env (js ''INFO'') (js ''Spam folder is already empty'') st2)
                   else
                     (case spamLoop env spamMessages 0 (0, st2) of
                        (deletedCount, st3) \<Rightarrow>
                          (let st4 = auditLog env (js ''WARN'')
                                       (js ''Spam cleanup completed - Deleted '' @ showNat deletedCount @
                                        js '' emails'') st3
                           in (Inr (JObj
                                 [(''success'', JBool True),
                                  (''message'', JStr (js ''Spam folder successfully emptied'')),
                                  (''totalFound'', JNum (int (length spamMessages))),
                                  (''deletedCount'', JNum (int deletedCount)),
                                  (''completedAt'', JStr (isoNow env (world st4)))]),
                               st4)))))))"

text \<open>
  Views of a trace: the deletes and pauses in order, the deletes that failed, and the
  audit entries of level \<open>ERROR\<close>.
\<close>

datatype step = Delete jsstring | Pause nat

fun steps :: "event list \<Rightarrow> step list" where
  "steps [] = []"
| "steps (ApiDelete i r # evs) = Delete i # steps evs"
| "steps (Sleep n # evs) = Pause n # steps evs"
| "steps (ev # evs) = steps evs"

fun failures :: "event list \<Rightarrow> (jsstring \<times> jsstring) list" where
  "failures [] = []"
| "failures (ApiDelete i (Some err) # evs) = (i, err) # failures evs"
| "failures (ev # evs) = failures evs"


fun apiCalls :: "event list \<Rightarrow> event list" where
  "apiCalls [] = []"
| "apiCalls (Audit level message # evs) = apiCalls evs"
| "apiCalls (ConsoleError # evs) = apiCalls evs"
| "apiCalls (ev # evs) = ev # apiCalls evs"

section \<open>Reading a result, and a concrete outside world\<close>

definition resultField :: "string \<Rightarrow> (jsstring + json) \<Rightarrow> json option" where
  "resultField k r = (case r of Inl err \<Rightarrow> None | Inr obj \<Rightarrow> field k obj)"

definition partsOf :: "part \<Rightarrow> part list" where
  "partsOf p = (case parts p of None \<Rightarrow> [] | Some ps \<Rightarrow> ps)"

text \<open>The payload with everything below its top-level parts cut off.\<close>

definition leaf :: "part \<Rightarrow> part" where
  "leaf q = Part (mimeType q) (filename q) (headers q) (body q) None"

definition shallow :: "part \<Rightarrow> part" where
  "shallow p = Part (mimeType p) (filename p) (headers p) (body p) (map_option (map leaf) (parts p))"

text \<open>
  An outside world to run the handlers in: the mail API answers with the given message,
  spam listing and attachment data, a delete fails for the ids of \<open>bad\<close>, the file system
  always succeeds, the world state counts the milliseconds slept, and the base64 functions
  are stand-ins that leave the characters as they are.
\<close>

definition demoEnv ::
  "message \<Rightarrow> jsstring option list \<Rightarrow> jsstring list \<Rightarrow> jsstring option \<Rightarrow> nat env" where
  "demoEnv msg spam bad att =
     \<lparr>messages_list = (\<lambda>q n w. (Inr (Some spam), w)),
      messages_get = (\<lambda>i w. (Inr msg, w)),
      messages_delete = (\<lambda>i w. (if i \<in> set bad then Some (js ''Error: Not Found'') else None, w)),
      messages_send = (\<lambda>raw w. (Inr (Some (js ''sent-1'')), w)),
      attachments_get = (\<lambda>m a w. (Inr att, w)),
      fs_mkdir = (\<lambda>d w. (None, w)),
      fs_appendFile = (\<lambda>f l w. (None, w)),
      fs_writeFile = (\<lambda>f b w. (None, w)),
      setTimeout = (\<lambda>n w. w + n),
      isoNow = (\<lambda>w. js ''2024-01-01T00:00:00.000Z''),
      homedir = js ''/home/u'',
      path_join = (\<lambda>a b. a @ js ''/'' @ b),
      base64ToString = (\<lambda>d. d),
      base64urlBytes = map ucast,
      toBase64url = (\<lambda>s. s)\<rparr>"

definition start :: "nat proc" where
  "start = \<lparr>world = 0, trace = []\<rparr>"

definition textPart :: "string \<Rightarrow> string \<Rightarrow> part" where
  \<comment> \<open>a part of the given MIME type whose body data is the given text\<close>
  "textPart mt txt = Part (Some (js mt)) None None (Some (Body (Some (js txt)) None)) None"

definition multipart :: "string \<Rightarrow> part list \<Rightarrow> part" where
  \<comment> \<open>a container: no body data of its own\<close>
  "multipart mt ps = Part (Some (js mt)) None None (Some (Body None None)) (Some ps)"

definition filePart :: "string \<Rightarrow> string \<Rightarrow> part" where
  \<comment> \<open>an attachment: a file name and an attachment id, no body data\<close>
  "filePart fn aid =
     Part (Some (js ''application/octet-stream'')) (Some (js fn)) None
       (Some (Body None (Some (js aid)))) None"

definition messageOf :: "part \<Rightarrow> message" where
  "messageOf p = Message (Some (js ''thread-1'')) (Some (js ''snippet'')) (Some p)"

text \<open>A single-part HTML message, two plain-text parts side by side, and a nested message.\<close>

definition htmlOnly :: part where
  "htmlOnly = textPart ''text/html'' ''<b>hi</b>''"

definition twoPlain :: part where
  "twoPlain = multipart ''multipart/mixed''
     [textPart ''text/plain'' ''first'', textPart ''text/plain'' ''second'']"

definition nested :: part where
  "nested = multipart ''multipart/mixed''
     [multipart ''multipart/alternative''
        [textPart ''text/plain'' ''inner'', textPart ''text/html'' ''<p>inner</p>''],
      filePart ''a.pdf'' ''att-1'',
      textPart ''text/plain'' ''outer'',
      textPart ''text/html'' ''<p>outer</p>'']"

definition htmlMail :: part where
  "htmlMail = multipart ''multipart/mixed''
     [textPart ''text/html'' ''<p>old</p>'',
      filePart ''a.pdf'' ''att-1'',
      textPart ''text/html'' ''<p>Hi&nbsp;<b>you</b> &amp; me<BR />x&lt;y&gt;z &quot;q&quot; &copy;</P>'']"

section \<open>Validation errors and example arguments\<close>

text \<open>The messages of the errors that the validation of \<open>sendEmail\<close> throws.\<close>

definition validationMessage :: "send_args \<Rightarrow> jsstring \<Rightarrow> bool" where
  "validationMessage args msg =
     (msg = js ''Recipients (to) must be a non-empty array'' \<or>
      msg = js ''Subject must be a string with max 255 characters'' \<or>
      msg = js ''Body must be a string with max 10000 characters'' \<or>
      (\<exists>e. e \<in> set (orNil (arg_to args) @ orNil (arg_cc args) @ orNil (arg_bcc args)) \<and>
           \<not> validateEmail e \<and> msg = js ''Invalid email address: '' @ e))"

definition mail :: "nat \<Rightarrow> jsstring list \<Rightarrow> send_args" where
  \<comment> \<open>a mail to \<open>a@b.co\<close> with a subject of the given length and the given \<open>cc\<close>\<close>
  "mail n cc =
     \<lparr>arg_to = Some [js ''a@b.co''], arg_subject = Some (replicate n (jc CHR ''x'')),
      arg_body = Some (js ''hi''), arg_cc = Some cc, arg_bcc = None\<rparr>"

section \<open>More views of a trace\<close>

fun writes :: "event list \<Rightarrow> (jsstring \<times> 8 word list) list" where
  "writes [] = []"
| "writes (WriteFile f b # evs) = (f, b) # writes evs"
| "writes (ev # evs) = writes evs"



section \<open>The request dispatcher\<close>

text \<open>
  What \<open>authenticate\<close> and the dispatcher call besides the environment of the handlers.
  \<open>load_credentials\<close> is the first part of \<open>authenticate\<close>, up to the construction of the
  OAuth client: reading and parsing the credentials file; it fails with the text of the
  error. \<open>load_token\<close> is the inner \<open>try\<close> block up to \<open>getAccessToken\<close>: reading and
  parsing the token file and validating the token. \<open>stringify\<close> is \<open>JSON.stringify\<close>.
\<close>

record 'w host =
  load_credentials :: "'w \<Rightarrow> jsstring option \<times> 'w"
  load_token :: "'w \<Rightarrow> bool \<times> 'w"
  stringify :: "json \<Rightarrow> jsstring"

text \<open>
  The state of the server process: the \<open>requests\<close> map of \<open>RATE_LIMIT\<close>, whether the fields
  \<open>auth\<close> and \<open>gmail\<close> of the server hold a client, and the process the handlers work on.
\<close>

record 'w server =
  requests :: rate_map
  auth :: bool
  gmail :: bool
  proc :: "'w proc"

definition authFail :: "'w env \<Rightarrow> jsstring \<Rightarrow> 'w server \<Rightarrow> jsstring option \<times> 'w server" where
  \<comment> \<open>the outer \<open>catch\<close> block of \<open>authenticate\<close>\<close>
  "authFail env err sv =
     (Some (js ''Gmail authentication failed. Check credentials file.''),
      sv\<lparr>proc := auditLog env (js ''ERROR'') (js ''Authentication failed: '' @ err) (proc sv)\<rparr>)"

text \<open>\<open>authenticate\<close> returns \<open>Some\<close> the message of the error it throws.\<close>

definition authenticate :: "'w env \<Rightarrow> 'w host \<Rightarrow> 'w server \<Rightarrow> jsstring option \<times> 'w server" where
  "authenticate env h sv =
     (case load_credentials h (world (proc sv)) of
        (Some err, w1) \<Rightarrow> authFail env err (sv\<lparr>proc := emit LoadCredentials w1 (proc sv)\<rparr>)
      | (None, w1) \<Rightarrow>
          (let sv1 = sv\<lparr>auth := True, proc := emit LoadCredentials w1 (proc sv)\<rparr> in
           case load_token h w1 of
             (False, w2) \<Rightarrow>
               authFail env (js ''Error: Authentication required. Please run: npm run auth'')
                 (sv1\<lparr>proc := auditLog env (js ''WARN'')
                                 (js ''Token validation failed, re-authentication required'')
                                 (emit LoadToken w2 (proc sv1))\<rparr>)
           | (True, w2) \<Rightarrow>
               (None,
                sv1\<lparr>gmail := True,
                     proc := auditLog env (js ''INFO'') (js ''Authentication successful'')
                               (emit LoadToken w2 (proc sv1))\<rparr>)))"

text \<open>
  The handler of \<open>tools/call\<close> requests. \<open>now\<close> is \<open>Date.now()\<close>, \<open>args\<close> the properties of
  the arguments object, and \<open>run\<close> the \<open>case\<close> of the \<open>switch\<close> that the tool name selects,
  applied to the arguments; every handler throws an \<open>Error\<close>, which \<open>${error}\<close> renders
  with the prefix \<open>Error: \<close>.
\<close>

definition toolCalled :: "'w host \<Rightarrow> jsstring \<Rightarrow> (string \<times> json) list \<Rightarrow> jsstring" where
  "toolCalled h tool args =
     js ''Tool called: '' @ tool @ js '' with args: '' @ stringify h (JObj args)"

definition callTool ::
  "'w env \<Rightarrow> 'w host \<Rightarrow> int \<Rightarrow> jsstring \<Rightarrow> (string \<times> json) list \<Rightarrow>
     ('w proc \<Rightarrow> (jsstring + json) \<times> 'w proc) \<Rightarrow> 'w server \<Rightarrow> (jsstring + json) \<times> 'w server" where
  "callTool env h now tool args run sv =
     (case checkRateLimit (js ''default'') now (requests sv) of
        (False, reqs) \<Rightarrow>
          (Inl (js ''Rate limit exceeded. Please wait before making more requests.''),
           sv\<lparr>requests := reqs\<rparr>)
      | (True, reqs) \<Rightarrow>
          (case (if \<not> gmail sv then authenticate env h (sv\<lparr>requests := reqs\<rparr>)
                 else (None, sv\<lparr>requests := reqs\<rparr>)) of
             (Some err, sv1) \<Rightarrow> (Inl err, sv1)
           | (None, sv1) \<Rightarrow>
               (let st1 = auditLog env (js ''INFO'') (toolCalled h tool args) (proc sv1) in
                case run st1 of
                  (Inl err, st2) \<Rightarrow>
                    (Inl err,
                     sv1\<lparr>proc := auditLog env (js ''ERROR'')
                                    (js ''Tool '' @ tool @ js '' failed: Error: '' @ err) st2\<rparr>)
                | (Inr obj, st2) \<Rightarrow> (Inr obj, sv1\<lparr>proc := st2\<rparr>))))"

text \<open>The \<open>case 'empty_spam'\<close> of the \<open>switch\<close>: \<open>emptySpam\<close> on the \<open>confirm\<close> property.\<close>

definition callEmptySpam ::
  "'w env \<Rightarrow> 'w host \<Rightarrow> int \<Rightarrow> (string \<times> json) list \<Rightarrow> 'w server \<Rightarrow>
     (jsstring + json) \<times> 'w server" where
  "callEmptySpam env h now args sv =
     callTool env h now (js ''empty_spam'') args (emptySpam env (map_of args ''confirm'')) sv"

definition confirmationRequired :: json where
  "confirmationRequired =
     JObj [(''error'', JStr (js ''Confirmation required'')),
           (''message'', JStr (js ''To empty spam, you must set confirm: true'')),
           (''warning'', JStr (js ''This will permanently delete ALL emails in spam folder''))]"

text \<open>The calls of a trace that go to the mail API.\<close>

fun mailCalls :: "event list \<Rightarrow> event list" where
  "mailCalls [] = []"
| "mailCalls (ApiList q n # evs) = ApiList q n # mailCalls evs"
| "mailCalls (ApiGet i # evs) = ApiGet i # mailCalls evs"
| "mailCalls (ApiDelete i r # evs) = ApiDelete i r # mailCalls evs"
| "mailCalls (ApiSend raw # evs) = ApiSend raw # mailCalls evs"
| "mailCalls (ApiAttachment m a # evs) = ApiAttachment m a # mailCalls evs"
| "mailCalls (ev # evs) = mailCalls evs"

text \<open>
  A host for the examples: the credentials and the token load, and \<open>stringify\<close> renders an
  object whose property values are \<open>null\<close>, booleans, integers or strings that need no
  escaping, which is what \<open>JSON.stringify\<close> gives for such an object.
\<close>

definition showInt :: "int \<Rightarrow> jsstring" where
  "showInt i = (if i < 0 then js ''-'' @ showNat (nat (- i)) else showNat (nat i))"

definition quoted :: "jsstring \<Rightarrow> jsstring" where
  "quoted s = [0x22] @ s @ [0x22]"

fun showValue :: "json \<Rightarrow> jsstring" where
  "showValue JNull = js ''null''"
| "showValue (JBool b) = (if b then js ''true'' else js ''false'')"
| "showValue (JNum i) = showInt i"
| "showValue (JStr s) = quoted s"
| "showValue (JArr xs) = js ''[]''"
| "showValue (JObj kvs) =
     js ''{'' @ join (js '','') (map (\<lambda>(k, v). quoted (js k) @ js '':'' @
        (case v of JNull \<Rightarrow> js ''null''
         | JBool b \<Rightarrow> (if b then js ''true'' else js ''false'')
         | JNum i \<Rightarrow> showInt i
         | JStr s \<Rightarrow> quoted s
         | JArr xs \<Rightarrow> js ''[]''
         | JObj ps \<Rightarrow> js ''{}'')) kvs) @ js ''}''"

definition demoHost :: "nat host" where
  "demoHost =
     \<lparr>load_credentials = (\<lambda>w. (None, w)), load_token = (\<lambda>w. (True, w)), stringify = showValue\<rparr>"

text \<open>
  A server that has served nothing yet, with its client handle in place (\<open>warm\<close>) and
  before its first authentication (\<open>cold\<close>).
\<close>

definition warm :: "nat server" where
  "warm = \<lparr>requests = Map.empty, auth = True, gmail = True, proc = start\<rparr>"

definition cold :: "nat server" where
  "cold = \<lparr>requests = Map.empty, auth = False, gmail = False, proc = start\<rparr>"

section \<open>Decoding URL-safe base64\<close>






section \<open>The matcher finds exactly the matching words\<close>

lemma matches_One: "matches ((a, One) # r) w = (\<exists>c v. w = c # v \<and> a c \<and> matches r v)"
  apply (auto simp: length_Suc_conv)
  apply (rule_tac x="[c]" in exI) apply simp
  done

lemma matches_Star_Nil: "matches r w \<Longrightarrow> matches ((a, Star) # r) w"
  by (auto intro: exI[of _ "[]"])

lemma matches_Star_Cons: "a c \<Longrightarrow> matches ((a, Star) # r) w \<Longrightarrow> matches ((a, Star) # r) (c # w)"
  apply auto
  subgoal for u v by (rule exI[of _ "c # u"]) auto
  done

lemma matches_Star_cases:
  "matches ((a, Star) # r) w = (matches r w \<or> (\<exists>c v. w = c # v \<and> a c \<and> matches ((a, Star) # r) v))"
  apply (rule iffI)
  subgoal
    apply (simp only: matches.simps)
    apply (elim exE conjE)
    subgoal for u v by (cases u) auto
    done
  subgoal by (auto intro: matches_Star_Nil matches_Star_Cons simp del: matches.simps)
  done

lemma matches_Opt_cases:
  "matches ((a, Opt) # r) w = (matches r w \<or> (\<exists>c v. w = c # v \<and> a c \<and> matches r v))"
  apply (rule iffI)
  subgoal
    apply (simp only: matches.simps)
    apply (elim exE conjE)
    subgoal for u v by (cases u) auto
    done
  subgoal
    apply (erule disjE)
     apply (simp, rule exI[of _ "[]"], simp)
    apply (elim exE conjE)
    subgoal for c v by (simp, rule exI[of _ "[c]"], simp)
    done
  done

lemma matches_Plus_cases:
  "matches ((a, Plus) # r) w = (\<exists>c v. w = c # v \<and> a c \<and> matches ((a, Star) # r) v)"
  apply (rule iffI)
  subgoal
    apply (simp only: matches.simps)
    apply (elim exE conjE)
    subgoal for u v by (cases u) auto
    done
  subgoal
    apply (elim exE conjE)
    apply (simp only: matches.simps)
    apply (elim exE conjE)
    subgoal for c v u v' by (rule exI[of _ "c # u"], rule exI[of _ v']) auto
    done
  done

lemma bt_sound:
  "bt p e s = Some n \<Longrightarrow> n \<le> length s \<and> matches p (take n s) \<and> (e \<longrightarrow> n = length s)"
proof (induction p e s arbitrary: n rule: bt.induct)
  case (1 e s) then show ?case by (auto split: if_splits)
next
  case (2 a r e) then show ?case by simp
next
  case (3 a r e c cs) then show ?case
    by (auto simp: matches_One simp del: matches.simps split: if_splits)
next
  case (4 a r e) then show ?case
    by (auto simp: matches_Opt_cases simp del: matches.simps)
next
  case (5 a r e c cs) then show ?case
    by (auto simp: matches_Opt_cases simp del: matches.simps split: if_splits option.splits)
next
  case (6 a r e) then show ?case
    by (auto simp: matches_Star_cases[of a r "[]"] simp del: matches.simps)
next
  case (7 a r e c cs)
  show ?case
  proof (cases "a c")
    case True
    show ?thesis
    proof (cases "bt ((a, Star) # r) e cs")
      case None
      with True 7 have "bt r e (c # cs) = Some n" by simp
      from "7.IH"(2)[OF True None this] show ?thesis
        using matches_Star_Nil by blast
    next
      case (Some m)
      with True 7 have n: "n = Suc m" by simp
      from "7.IH"(1)[OF True Some] show ?thesis
        using True n by (auto intro: matches_Star_Cons simp del: matches.simps)
    qed
  next
    case False
    with 7 have "bt r e (c # cs) = Some n" by simp
    from "7.IH"(3)[OF False this] show ?thesis
      using matches_Star_Nil by blast
  qed
next
  case (8 a r e) then show ?case by simp
next
  case (9 a r e c cs) then show ?case
    by (auto simp: matches_Plus_cases[of a r "c # x" for x] simp del: matches.simps split: if_splits)
qed

lemma bt_complete:
  "matches p u \<Longrightarrow> (e \<longrightarrow> v = []) \<Longrightarrow> s = u @ v \<Longrightarrow> bt p e s \<noteq> None"
proof (induction p e s arbitrary: u v rule: bt.induct)
  case (1 e s) then show ?case by auto
next
  case (2 a r e) then show ?case by (auto simp: matches_One simp del: matches.simps)
next
  case (3 a r e c cs)
  from "3.prems"(1) obtain c' w where u: "u = c' # w" "a c'" "matches r w"
    by (auto simp: matches_One simp del: matches.simps)
  with "3.prems"(3) have "c' = c" "cs = w @ v" by auto
  with u "3.IH"[of w v] "3.prems"(2) show ?case by auto
next
  case (4 a r e) then show ?case
    by (auto simp: matches_Opt_cases simp del: matches.simps)
next
  case (5 a r e c cs)
  from "5.prems"(1) consider (skip) "matches r u"
    | (take) c' w where "u = c' # w" "a c'" "matches r w"
    by (auto simp: matches_Opt_cases simp del: matches.simps)
  then show ?case
  proof cases
    case skip
    show ?thesis
    proof (cases "a c")
      case True
      show ?thesis
      proof (cases "bt r e cs")
        case None
        from "5.IH"(2)[OF True None skip "5.prems"(2,3)] True None show ?thesis by simp
      next
        case (Some m)
        with True show ?thesis by simp
      qed
    next
      case False
      from "5.IH"(3)[OF False skip "5.prems"(2,3)] False show ?thesis by simp
    qed
  next
    case take
    with "5.prems"(3) have eq: "c' = c" "cs = w @ v" by auto
    with take have ac: "a c" by simp
    from "5.IH"(1)[OF ac take(3) "5.prems"(2) eq(2)] ac show ?thesis by auto
  qed
next
  case (6 a r e) then show ?case
    by (auto simp: matches_Star_cases[of a r "[]"] simp del: matches.simps)
next
  case (7 a r e c cs)
  from "7.prems"(1) consider (skip) "matches r u"
    | (take) c' w where "u = c' # w" "a c'" "matches ((a, Star) # r) w"
    using matches_Star_cases[of a r u] by blast
  then show ?case
  proof cases
    case skip
    show ?thesis
    proof (cases "a c")
      case True
      show ?thesis
      proof (cases "bt ((a, Star) # r) e cs")
        case None
        from "7.IH"(2)[OF True None skip "7.prems"(2,3)] True None show ?thesis by simp
      next
        case (Some m)
        with True show ?thesis by simp
      qed
    next
      case False
      from "7.IH"(3)[OF False skip "7.prems"(2,3)] False show ?thesis by simp
    qed
  next
    case take
    with "7.prems"(3) have eq: "c' = c" "cs = w @ v" by auto
    with take have ac: "a c" by simp
    from "7.IH"(1)[OF ac take(3) "7.prems"(2) eq(2)] ac show ?thesis by auto
  qed
next
  case (8 a r e) then show ?case by (auto simp: matches_Plus_cases simp del: matches.simps)
next
  case (9 a r e c cs)
  from "9.prems"(1) obtain c' w where u: "u = c' # w" "a c'" "matches ((a, Star) # r) w"
    using matches_Plus_cases[of a r u] by blast
  with "9.prems"(3) have eq: "c' = c" "cs = w @ v" by auto
  with u have ac: "a c" by simp
  from "9.IH"[OF ac u(3) "9.prems"(2) eq(2)] ac show ?case by auto
qed

lemma bt_iff: "bt p e s \<noteq> None \<longleftrightarrow> (\<exists>u v. s = u @ v \<and> matches p u \<and> (e \<longrightarrow> v = []))"
proof
  assume "bt p e s \<noteq> None"
  then obtain n where n: "bt p e s = Some n" by auto
  from bt_sound[OF n] show "\<exists>u v. s = u @ v \<and> matches p u \<and> (e \<longrightarrow> v = [])"
    by (intro exI[of _ "take n s"] exI[of _ "drop n s"]) auto
next
  assume "\<exists>u v. s = u @ v \<and> matches p u \<and> (e \<longrightarrow> v = [])"
  then show "bt p e s \<noteq> None" using bt_complete by blast
qed

section \<open>Properties of the validators\<close>

lemma replaceAll_class: "replaceAll [(a, One)] [] s = filter (\<lambda>c. \<not> a c) s"
  by (induction s) auto

lemma matches_PlusD:
  "matches ((a, Plus) # r) w \<Longrightarrow> \<exists>u v. w = u @ v \<and> u \<noteq> [] \<and> list_all a u \<and> matches r v"
  by (simp, elim exE conjE) (metis le_zero_eq length_0_conv not_one_le_zero One_nat_def)

lemma matches_PlusI:
  "u \<noteq> [] \<Longrightarrow> list_all a u \<Longrightarrow> matches r v \<Longrightarrow> matches ((a, Plus) # r) (u @ v)"
  by (simp, intro exI[of _ u] exI[of _ v]) (cases u, auto)

lemma matches_email:
  "matches emailRegex s \<longleftrightarrow>
     (\<exists>l d t. s = l @ jc CHR ''@'' # d @ jc CHR ''.'' # t \<and> l \<noteq> [] \<and> d \<noteq> [] \<and> t \<noteq> [] \<and>
        (\<forall>c \<in> set (l @ d @ t). \<not> isWhiteSpace c \<and> c \<noteq> jc CHR ''@''))"
  (is "?L = ?R")
proof
  assume ?L
  then obtain l v1 where 1: "s = l @ v1" "list_all notWsAt l" "l \<noteq> []"
      "matches [(chr CHR ''@'', One), (notWsAt, Plus), (chr CHR ''.'', One), (notWsAt, Plus)] v1"
    unfolding emailRegex_def using matches_PlusD by blast
  from 1(4) obtain v2 where 2: "v1 = jc CHR ''@'' # v2"
      "matches [(notWsAt, Plus), (chr CHR ''.'', One), (notWsAt, Plus)] v2"
    by (auto simp: matches_One chr_def simp del: matches.simps)
  from 2(2) obtain d v3 where 3: "v2 = d @ v3" "list_all notWsAt d" "d \<noteq> []"
      "matches [(chr CHR ''.'', One), (notWsAt, Plus)] v3"
    using matches_PlusD by blast
  from 3(4) obtain t where 4: "v3 = jc CHR ''.'' # t" "matches [(notWsAt, Plus)] t"
    by (auto simp: matches_One chr_def simp del: matches.simps)
  from 4(2) have 5: "list_all notWsAt t" "t \<noteq> []" by auto
  show ?R
    apply (rule exI[of _ l], rule exI[of _ d], rule exI[of _ t])
    using 1(1,2,3) 2(1) 3(1,2,3) 4(1) 5 by (auto simp: list_all_iff notWsAt_def)
next
  assume ?R
  then obtain l d t where *: "s = l @ jc CHR ''@'' # d @ jc CHR ''.'' # t" "l \<noteq> []" "d \<noteq> []" "t \<noteq> []"
     "\<forall>c \<in> set (l @ d @ t). \<not> isWhiteSpace c \<and> c \<noteq> jc CHR ''@''" by blast
  from *(5) have cls: "list_all notWsAt l" "list_all notWsAt d" "list_all notWsAt t"
    by (auto simp: list_all_iff notWsAt_def)
  have "matches [] []" by simp
  from matches_PlusI[OF *(4) cls(3) this]
  have t: "matches [(notWsAt, Plus)] t" by simp
  have dot: "matches [(chr CHR ''.'', One), (notWsAt, Plus)] (jc CHR ''.'' # t)"
    using t by (simp add: matches_One chr_def del: matches.simps)
  have d: "matches [(notWsAt, Plus), (chr CHR ''.'', One), (notWsAt, Plus)] (d @ jc CHR ''.'' # t)"
    by (rule matches_PlusI[OF *(3) cls(2) dot])
  have at: "matches [(chr CHR ''@'', One), (notWsAt, Plus), (chr CHR ''.'', One), (notWsAt, Plus)] (jc CHR ''@'' # d @ jc CHR ''.'' # t)"
    using d by (simp add: matches_One chr_def del: matches.simps)
  show ?L unfolding emailRegex_def *(1)
    by (rule matches_PlusI[OF *(2) cls(1) at])
qed

lemma validateEmail_iff:
  "validateEmail s \<longleftrightarrow>
     (\<exists>l d t. s = l @ jc CHR ''@'' # d @ jc CHR ''.'' # t \<and> l \<noteq> [] \<and> d \<noteq> [] \<and> t \<noteq> [] \<and>
        (\<forall>c \<in> set (l @ d @ t). \<not> isWhiteSpace c \<and> c \<noteq> jc CHR ''@''))"
  unfolding validateEmail_def testAnchored_def bt_iff matches_email[symmetric] by auto

section \<open>Properties of the rate limiter\<close>

lemma inWindow_less: "(<) (now - windowMs) = inWindow now"
  by (auto simp: inWindow_def fun_eq_iff)

lemma check_denied_same:
  "fst (checkRateLimit c now m) = False \<Longrightarrow> snd (checkRateLimit c now m) = m"
  by (auto simp: checkRateLimit_def Let_def maxRequests_def split: if_splits)

lemma check_fst:
  "fst (checkRateLimit c now m) = (length (filter (inWindow now) (stored m c)) < maxRequests)"
  by (auto simp: checkRateLimit_def Let_def stored_def inWindow_less)

lemma check_stored:
  "fst (checkRateLimit c now m) \<Longrightarrow> stored (snd (checkRateLimit c now m)) c = filter (inWindow now) (stored m c) @ [now]"
  by (auto simp: checkRateLimit_def Let_def stored_def inWindow_less split: if_splits)

lemma filter_window_mono:
  assumes "l \<le> now"
  shows "filter (inWindow now) (filter (inWindow l) G) = filter (inWindow now) G"
  using assms by (induction G) (auto simp: inWindow_def)

lemma inv_valid:
  assumes "stored_inv m c G" "\<forall>x \<in> set G. x \<le> now"
  shows "filter (inWindow now) (stored m c) = filter (inWindow now) G"
proof (cases "G = []")
  case True with assms show ?thesis by (simp add: stored_inv_def)
next
  case False
  then have "last G \<le> now" using assms(2) by auto
  with assms(1) False show ?thesis using filter_window_mono[of "last G" now G] by (simp add: stored_inv_def)
qed

lemma inv_grant:
  assumes "stored_inv m c G" "\<forall>x \<in> set G. x \<le> now" "fst (checkRateLimit c now m)"
  shows "stored_inv (snd (checkRateLimit c now m)) c (G @ [now])"
  using check_stored[OF assms(3)] inv_valid[OF assms(1,2)]
  by (simp add: stored_inv_def inWindow_def windowMs_def)

lemma calls_limiter:
  "stored_inv m c G \<Longrightarrow> sorted ts \<Longrightarrow> \<forall>x \<in> set G. \<forall>t \<in> set ts. x \<le> t \<Longrightarrow>
     fst (calls c ts m) = limiter G ts"
proof (induction ts arbitrary: m G)
  case Nil then show ?case by simp
next
  case (Cons t ts)
  have le: "\<forall>x \<in> set G. x \<le> t" using Cons.prems(3) by simp
  have v: "filter (inWindow t) (stored m c) = filter (inWindow t) G"
    by (rule inv_valid[OF Cons.prems(1) le])
  obtain g m' where ch: "checkRateLimit c t m = (g, m')" by (cases "checkRateLimit c t m")
  have g: "g = (length (filter (inWindow t) G) < maxRequests)"
    using check_fst[of c t m] ch v by simp
  have s: "sorted ts" using Cons.prems(2) by simp
  show ?case
  proof (cases g)
    case True
    have i: "stored_inv m' c (G @ [t])" using inv_grant[OF Cons.prems(1) le] ch True by simp
    have b: "\<forall>x \<in> set (G @ [t]). \<forall>u \<in> set ts. x \<le> u" using Cons.prems(2,3) by auto
    from Cons.IH[OF i s b] ch True g show ?thesis by (cases "calls c ts m'") simp
  next
    case False
    have "m' = m" using check_denied_same[of c t m] ch False by simp
    with Cons.prems(1) have i: "stored_inv m' c G" by simp
    have b: "\<forall>x \<in> set G. \<forall>u \<in> set ts. x \<le> u" using Cons.prems(3) by auto
    from Cons.IH[OF i s b] ch False g show ?thesis by (cases "calls c ts m'") simp
  qed
qed

lemma length_filter_le_imp:
  "(\<And>x. x \<in> set xs \<Longrightarrow> P x \<Longrightarrow> Q x) \<Longrightarrow> length (filter P xs) \<le> length (filter Q xs)"
  by (induction xs) auto

lemma windowOK_snoc:
  assumes "windowOK G" "length (filter (inWindow t) G) < maxRequests"
  shows "windowOK (G @ [t])"
  unfolding windowOK_def
proof
  fix w
  show "length (filter (\<lambda>x. w < x \<and> x \<le> w + windowMs) (G @ [t])) \<le> maxRequests"
  proof (cases "w < t \<and> t \<le> w + windowMs")
    case True
    have "length (filter (\<lambda>x. w < x \<and> x \<le> w + windowMs) G) \<le> length (filter (inWindow t) G)"
      by (rule length_filter_le_imp) (use True in \<open>auto simp: inWindow_def\<close>)
    with assms(2) True show ?thesis by simp
  next
    case False
    with assms(1) show ?thesis by (auto simp: windowOK_def)
  qed
qed

lemma limiter_windowOK:
  "windowOK G \<Longrightarrow> windowOK (G @ admitted ts (limiter G ts))"
proof (induction ts arbitrary: G)
  case Nil then show ?case by (simp add: admitted_def)
next
  case (Cons t ts)
  show ?case
  proof (cases "length (filter (inWindow t) G) < maxRequests")
    case True
    from Cons.IH[OF windowOK_snoc[OF Cons.prems True]] True
    show ?thesis by (simp add: admitted_def)
  next
    case False
    from Cons.IH[OF Cons.prems] False show ?thesis by (simp add: admitted_def)
  qed
qed

lemma limiter_length: "length (limiter G ts) = length ts"
  by (induction ts arbitrary: G) auto

lemma limiter_nth:
  "i < length ts \<Longrightarrow>
     limiter G ts ! i =
       (length (filter (inWindow (ts ! i)) (G @ admitted (take i ts) (take i (limiter G ts)))) < maxRequests)"
proof (induction ts arbitrary: G i)
  case Nil then show ?case by simp
next
  case (Cons t ts)
  show ?case
  proof (cases i)
    case 0 then show ?thesis by (simp add: admitted_def)
  next
    case (Suc j)
    with Cons.prems have j: "j < length ts" by simp
    show ?thesis using Cons.IH[OF j] Suc by (simp add: admitted_def)
  qed
qed

lemma length_filter_zip_admitted:
  "length (filter (\<lambda>(t, g). g \<and> P t) (zip ts gs)) = length (filter P (admitted ts gs))"
  unfolding admitted_def by (induction ts gs rule: list_induct2') auto

lemma stored_inv_empty: "stored_inv Map.empty c []"
  by (simp add: stored_inv_def stored_def)

lemma windowOK_Nil: "windowOK []"
  by (simp add: windowOK_def)

lemma calls_from_start:
  assumes "sorted ts"
  shows "fst (calls c ts Map.empty) = limiter [] ts"
  by (rule calls_limiter[OF stored_inv_empty assms]) simp

lemma admitted_take: "admitted (take i ts) (take i gs) = map fst (filter snd (take i (zip ts gs)))"
  by (simp add: admitted_def take_zip)

section \<open>Claims\<close>

text \<open>
  C1. For every sequence of calls to \<open>checkRateLimit\<close> with non-decreasing timestamps,
  starting from the empty map of a fresh process: at most 50 of the granted calls have
  their timestamps in any window of 60000 ms (the timestamps \<open>t\<close> with
  \<open>w < t \<le> w + 60000\<close>, which is how the code delimits its window); a call is granted
  exactly when fewer than 50 of the timestamps admitted before it lie in the window that
  ends at it, so that once 50 lie there every further call is denied until the oldest of
  them has left the window; and a denied call leaves the map as it was, recording nothing.
\<close>

theorem checkRateLimit_window:
  assumes "sorted ts"
  shows "(\<forall>w. length (filter (\<lambda>(t, g). g \<and> w < t \<and> t \<le> w + 60000)
                         (zip ts (fst (calls c ts Map.empty)))) \<le> 50) \<and>
         (\<forall>i. i < length ts \<longrightarrow>
            fst (calls c ts Map.empty) ! i =
              (length (filter (\<lambda>(t, g). g \<and> ts ! i - 60000 < t)
                         (take i (zip ts (fst (calls c ts Map.empty))))) < 50)) \<and>
         (\<forall>now reqs. \<not> fst (checkRateLimit c now reqs) \<longrightarrow>
            snd (checkRateLimit c now reqs) = reqs)"
proof (intro conjI allI impI)
  fix w
  have "windowOK ([] @ admitted ts (limiter [] ts))"
    by (rule limiter_windowOK[OF windowOK_Nil])
  then have "length (filter (\<lambda>x. w < x \<and> x \<le> w + 60000) (admitted ts (limiter [] ts))) \<le> 50"
    by (simp add: windowOK_def windowMs_def maxRequests_def)
  then show "length (filter (\<lambda>(t, g). g \<and> w < t \<and> t \<le> w + 60000)
                (zip ts (fst (calls c ts Map.empty)))) \<le> 50"
    by (simp add: calls_from_start[OF assms] length_filter_zip_admitted)
next
  fix i assume i: "i < length ts"
  let ?gs = "limiter [] ts"
  have "?gs ! i = (length (filter (inWindow (ts ! i)) ([] @ admitted (take i ts) (take i ?gs))) < maxRequests)"
    by (rule limiter_nth[OF i])
  also have "filter (inWindow (ts ! i)) ([] @ admitted (take i ts) (take i ?gs)) =
             filter (\<lambda>t. ts ! i - 60000 < t) (admitted (take i ts) (take i ?gs))"
    by (simp add: inWindow_less[symmetric] windowMs_def)
  also have "length \<dots> = length (filter (\<lambda>(t, g). g \<and> ts ! i - 60000 < t) (take i (zip ts ?gs)))"
    by (simp add: length_filter_zip_admitted take_zip)
  finally show "fst (calls c ts Map.empty) ! i =
      (length (filter (\<lambda>(t, g). g \<and> ts ! i - 60000 < t)
                 (take i (zip ts (fst (calls c ts Map.empty))))) < 50)"
    by (simp add: calls_from_start[OF assms] maxRequests_def)
next
  fix now reqs assume "\<not> fst (checkRateLimit c now reqs)"
  then show "snd (checkRateLimit c now reqs) = reqs"
    using check_denied_same by simp
qed

text \<open>
  Fifty-one calls in the same millisecond, one 59999 ms later and one 60000 ms later: the
  first fifty are granted, the next two denied, and the last is granted because the fifty
  recorded timestamps have just left its window.
\<close>

theorem checkRateLimit_window_witness:
  "sorted (replicate 51 (0::int) @ [59999, 60000]) \<and>
   fst (calls (js ''default'') (replicate 51 0 @ [59999, 60000]) Map.empty) =
     replicate 50 True @ [False, False, True] \<and>
   length (filter (\<lambda>(t, g). g \<and> -1 < t \<and> t \<le> -1 + 60000)
     (zip (replicate 51 (0::int) @ [59999, 60000])
          (fst (calls (js ''default'') (replicate 51 0 @ [59999, 60000]) Map.empty)))) \<le> 50"
proof -
  have s: "sorted (replicate 51 (0::int) @ [59999, 60000])"
    by (simp add: sorted_append)
  have e: "fst (calls (js ''default'') (replicate 51 0 @ [59999, 60000]) Map.empty) =
     replicate 50 True @ [False, False, True]"
    by code_simp
  from checkRateLimit_window[OF s, of "js ''default''"] s e show ?thesis
    by (elim conjE allE[of _ "-1::int"]) simp
qed

lemma trim_decompose:
  "\<exists>pre suf. s = pre @ trim s @ suf \<and> list_all isWhiteSpace pre \<and> list_all isWhiteSpace suf"
proof -
  let ?d = "dropWhile isWhiteSpace s"
  have 1: "s = takeWhile isWhiteSpace s @ ?d" by simp
  have "rev (takeWhile isWhiteSpace (rev ?d) @ dropWhile isWhiteSpace (rev ?d)) = ?d"
    by (simp only: takeWhile_dropWhile_id rev_rev_ident)
  then have "rev (dropWhile isWhiteSpace (rev ?d)) @ rev (takeWhile isWhiteSpace (rev ?d)) = ?d"
    by (simp only: rev_append)
  then have 2: "?d = trim s @ rev (takeWhile isWhiteSpace (rev ?d))"
    by (simp only: trim_def)
  have 3: "list_all isWhiteSpace (takeWhile isWhiteSpace s)"
    by (simp add: list_all_iff) (meson set_takeWhileD)
  have 4: "list_all isWhiteSpace (rev (takeWhile isWhiteSpace (rev ?d)))"
    by (simp add: list_all_iff) (meson set_takeWhileD)
  from 1 2 have "s = takeWhile isWhiteSpace s @ trim s @ rev (takeWhile isWhiteSpace (rev ?d))"
    by metis
  with 3 4 show ?thesis by blast
qed

lemma trim_ends:
  "trim s = [] \<or> (\<not> isWhiteSpace (hd (trim s)) \<and> \<not> isWhiteSpace (last (trim s)))"
proof (cases "trim s = []")
  case True then show ?thesis by simp
next
  case False
  let ?d = "dropWhile isWhiteSpace s"
  let ?e = "dropWhile isWhiteSpace (rev ?d)"
  from False have e: "?e \<noteq> []" by (simp add: trim_def)
  then have "\<not> isWhiteSpace (hd ?e)" by (rule hd_dropWhile)
  then have l: "\<not> isWhiteSpace (last (trim s))"
    using e by (simp add: trim_def last_rev)
  from e have d: "?d \<noteq> []" by (metis dropWhile.simps(1) rev.simps(1))
  then have hd: "\<not> isWhiteSpace (hd ?d)" by (rule hd_dropWhile)
  have "hd ?e \<in> set (rev ?d)" using e by (meson hd_in_set set_dropWhileD)
  then have "last ?e = last (rev ?d)"
    using \<open>\<not> isWhiteSpace (hd ?e)\<close> by (rule dropWhile_last)
  then have "hd (trim s) = hd ?d"
    using e d by (simp add: trim_def hd_rev last_rev)
  with hd l show ?thesis by simp
qed

text \<open>
  C8. For every input string, \<open>sanitizeInput\<close> removes every \<open><\<close> and \<open>>\<close> and then trims
  the surrounding whitespace, and nothing else: the result has no angle bracket, what was
  cut around it is whitespace only, and it neither starts nor ends with whitespace. In
  particular \<open>sanitizeInput("<script>x</script>  ") = "scriptx/script"\<close>.
\<close>

theorem sanitizeInput_spec:
  "sanitizeInput s = trim (filter (\<lambda>c. c \<noteq> jc CHR ''<'' \<and> c \<noteq> jc CHR ''>'') s) \<and>
   jc CHR ''<'' \<notin> set (sanitizeInput s) \<and> jc CHR ''>'' \<notin> set (sanitizeInput s) \<and>
   (\<exists>pre suf. filter (\<lambda>c. c \<noteq> jc CHR ''<'' \<and> c \<noteq> jc CHR ''>'') s = pre @ sanitizeInput s @ suf \<and>
      list_all isWhiteSpace pre \<and> list_all isWhiteSpace suf) \<and>
   (sanitizeInput s = [] \<or>
      (\<not> isWhiteSpace (hd (sanitizeInput s)) \<and> \<not> isWhiteSpace (last (sanitizeInput s)))) \<and>
   sanitizeInput (js ''<script>x</script>  '') = js ''scriptx/script''"
proof -
  let ?f = "filter (\<lambda>c. c \<noteq> jc CHR ''<'' \<and> c \<noteq> jc CHR ''>'') s"
  have eq: "sanitizeInput s = trim ?f"
    by (simp add: sanitizeInput_def replaceAll_class angle_def)
  obtain pre suf where d: "?f = pre @ trim ?f @ suf" "list_all isWhiteSpace pre" "list_all isWhiteSpace suf"
    using trim_decompose[of ?f] by blast
  have sub: "set (trim ?f) \<subseteq> set ?f"
  proof -
    have "set (pre @ trim ?f @ suf) = set ?f" using d(1) by simp
    then show ?thesis by auto
  qed
  have no: "jc CHR ''<'' \<notin> set (trim ?f)" "jc CHR ''>'' \<notin> set (trim ?f)"
    using sub by auto
  have ex: "sanitizeInput (js ''<script>x</script>  '') = js ''scriptx/script''"
    by (simp add: sanitizeInput_def js_def jc_def angle_def trim_def isWhiteSpace_def)
  show ?thesis
    unfolding eq using no d trim_ends[of ?f] ex[unfolded sanitizeInput_def replaceAll_class]
    by (auto simp: sanitizeInput_def replaceAll_class angle_def)
qed

text \<open>
  C9. \<open>validateEmail\<close> returns true exactly for the strings \<open>local@domain.tail\<close> whose
  three parts are non-empty and contain neither whitespace nor \<open>@\<close>. In particular it
  accepts \<open>a@b.co\<close> and rejects \<open>not-an-email\<close> and \<open>a@b\<close>.
\<close>

theorem validateEmail_spec:
  "(validateEmail s \<longleftrightarrow>
      (\<exists>l d t. s = l @ jc CHR ''@'' # d @ jc CHR ''.'' # t \<and> l \<noteq> [] \<and> d \<noteq> [] \<and> t \<noteq> [] \<and>
         (\<forall>c \<in> set (l @ d @ t). \<not> isWhiteSpace c \<and> c \<noteq> jc CHR ''@''))) \<and>
   validateEmail (js ''a@b.co'') \<and>
   \<not> validateEmail (js ''not-an-email'') \<and>
   \<not> validateEmail (js ''a@b'')"
proof (intro conjI)
  show "validateEmail s \<longleftrightarrow>
      (\<exists>l d t. s = l @ jc CHR ''@'' # d @ jc CHR ''.'' # t \<and> l \<noteq> [] \<and> d \<noteq> [] \<and> t \<noteq> [] \<and>
         (\<forall>c \<in> set (l @ d @ t). \<not> isWhiteSpace c \<and> c \<noteq> jc CHR ''@''))"
    by (rule validateEmail_iff)
  show "validateEmail (js ''a@b.co'')"
    by (simp add: validateEmail_def testAnchored_def emailRegex_def js_def jc_def notWsAt_def
        chr_def isWhiteSpace_def)
  show "\<not> validateEmail (js ''not-an-email'')"
    by (simp add: validateEmail_def testAnchored_def emailRegex_def js_def jc_def notWsAt_def
        chr_def isWhiteSpace_def)
  show "\<not> validateEmail (js ''a@b'')"
    by (simp add: validateEmail_def testAnchored_def emailRegex_def js_def jc_def notWsAt_def
        chr_def isWhiteSpace_def)
qed

text \<open>
  The characterisation at work: \<open>x@mail.example.org\<close> splits as the theorem asks (the
  domain may itself contain dots), and a string with a space in its local part does not.
\<close>

theorem validateEmail_spec_witness:
  "validateEmail (js ''x@mail.example.org'') \<and> \<not> validateEmail (js ''x y@b.co'')"
proof
  have iff: "validateEmail (js ''x@mail.example.org'') \<longleftrightarrow>
      (\<exists>l d t. js ''x@mail.example.org'' = l @ jc CHR ''@'' # d @ jc CHR ''.'' # t \<and>
         l \<noteq> [] \<and> d \<noteq> [] \<and> t \<noteq> [] \<and>
         (\<forall>c \<in> set (l @ d @ t). \<not> isWhiteSpace c \<and> c \<noteq> jc CHR ''@''))"
    using validateEmail_spec[of "js ''x@mail.example.org''"] by (rule conjunct1)
  show "validateEmail (js ''x@mail.example.org'')"
    unfolding iff
    by (rule exI[of _ "js ''x''"], rule exI[of _ "js ''mail.example''"], rule exI[of _ "js ''org''"])
       (simp add: js_def jc_def isWhiteSpace_def)
  show "\<not> validateEmail (js ''x y@b.co'')"
  proof
    assume "validateEmail (js ''x y@b.co'')"
    with validateEmail_spec[of "js ''x y@b.co''"]
    obtain l d t where *: "js ''x y@b.co'' = l @ jc CHR ''@'' # d @ jc CHR ''.'' # t"
      "\<forall>c \<in> set (l @ d @ t). \<not> isWhiteSpace c \<and> c \<noteq> jc CHR ''@''" by blast
    have "jc CHR '' '' \<in> set (js ''x y@b.co'')" by (simp add: js_def)
    with *(1) have "jc CHR '' '' \<in> set (l @ jc CHR ''@'' # d @ jc CHR ''.'' # t)" by simp
    then have "jc CHR '' '' \<in> set (l @ d @ t)" by (auto simp: jc_def)
    with *(2) show False by (auto simp: jc_def isWhiteSpace_def)
  qed
qed

lemma bodiesOf_append: "bodiesOf env mt (xs @ ys) = bodiesOf env mt xs @ bodiesOf env mt ys"
  by (simp add: bodiesOf_def)

lemma bodiesOf_Nil: "bodiesOf env mt [] = []"
  by (simp add: bodiesOf_def)

lemma lastOr_append: "lastOr d (xs @ ys) = lastOr (lastOr d xs) ys"
  by (simp add: lastOr_def)

lemma lastOr_Nil: "lastOr d [] = d"
  by (simp add: lastOr_def)

lemma js_html_plain: "js ''text/html'' \<noteq> js ''text/plain''"
  by (simp add: js_def jc_def)

lemma bodiesOf_Cons:
  "bodiesOf env mt (p # ps) =
     (if bodyData p \<noteq> None \<and> mimeType p = Some (js mt)
      then [base64ToString env (orEmpty (bodyData p))] else []) @ bodiesOf env mt ps"
  by (simp add: bodiesOf_def)

lemma extractContent_html:
  "htmlBody (extractContent env p c) = lastOr (htmlBody c) (bodiesOf env ''text/html'' (walk p))"
  "htmlBody (extractContents env l c) = lastOr (htmlBody c) (bodiesOf env ''text/html'' (walks l))"
proof (induction env p c and env l c rule: extractContent_extractContents.induct)
  case (1 env mt fn hs b ps c)
  then show ?case
    by (cases ps; cases "bodyData (Part mt fn hs b ps)")
       (auto simp: bodiesOf_Cons bodiesOf_Nil lastOr_def Let_def js_html_plain)
next
  case (2 env c) then show ?case by (simp add: bodiesOf_Nil lastOr_Nil)
next
  case (3 env p l c) then show ?case by (simp add: bodiesOf_append lastOr_append)
qed

lemma extractContent_text:
  "textBody (extractContent env p c) = lastOr (textBody c) (bodiesOf env ''text/plain'' (walk p))"
  "textBody (extractContents env l c) = lastOr (textBody c) (bodiesOf env ''text/plain'' (walks l))"
proof (induction env p c and env l c rule: extractContent_extractContents.induct)
  case (1 env mt fn hs b ps c)
  then show ?case
    by (cases ps; cases "bodyData (Part mt fn hs b ps)")
       (auto simp: bodiesOf_Cons bodiesOf_Nil lastOr_def Let_def js_html_plain)
next
  case (2 env c) then show ?case by (simp add: bodiesOf_Nil lastOr_Nil)
next
  case (3 env p l c) then show ?case by (simp add: bodiesOf_append lastOr_append)
qed

lemma extractContent_count:
  "attachmentCount (extractContent env p c) = attachmentCount c + length (filter isAttachment (walk p))"
  "attachmentCount (extractContents env l c) = attachmentCount c + length (filter isAttachment (walks l))"
proof (induction env p c and env l c rule: extractContent_extractContents.induct)
  case (1 env mt fn hs b ps c)
  then show ?case
    by (cases ps; cases "bodyData (Part mt fn hs b ps)")
       (auto simp: isAttachment_def Let_def)
next
  case (2 env c) then show ?case by simp
next
  case (3 env p l c) then show ?case by simp
qed

lemma scanParts_find:
  "scanParts env ps =
     (case find (\<lambda>q. mimeType q = Some (js ''text/plain'') \<and> bodyData q \<noteq> None) ps of
        None \<Rightarrow> []
      | Some q \<Rightarrow> base64ToString env (orEmpty (bodyData q)))"
  by (induction ps) (auto split: option.splits)

lemma bodyData_leaf: "bodyData (leaf q) = bodyData q"
  by (simp add: bodyData_def leaf_def)

lemma mimeType_leaf: "mimeType (leaf q) = mimeType q"
  by (simp add: leaf_def)

lemma scanParts_leaf: "scanParts env (map leaf ps) = scanParts env ps"
  by (induction ps) (auto simp: bodyData_leaf mimeType_leaf split: option.splits)

lemma extractBody_shallow: "extractBody env (shallow p) = extractBody env p"
  by (cases "parts p") (auto simp: extractBody_def shallow_def bodyData_def scanParts_leaf split: option.splits)

lemma body_of_readEmail:
  assumes "messages_get env mid (world st) = (Inr msg, w)" "payload msg = Some p" "mid \<noteq> []"
  shows "resultField ''body'' (fst (readEmail env (Some mid) st)) =
           Some (JStr (substring0 5000 (extractBody env p)))"
  using assms by (simp add: readEmail_def resultField_def Let_def)

lemma bt_first_char:
  "c \<noteq> jc x \<Longrightarrow> bt ((chr x, One) # r) e (c # cs) = None"
  by (simp add: chr_def)

lemma replaceAll_absent:
  "jc x \<notin> set s \<Longrightarrow> replaceAll ((chr x, One) # r) rep s = s"
  by (induction s) (auto simp: chr_def)

lemma lit_Cons: "lit (x # xs) = (chr x, One) # lit xs"
  by (simp add: lit_def)

lemma htmlToText_plain:
  assumes "jc CHR ''<'' \<notin> set s" "jc CHR ''&'' \<notin> set s"
  shows "htmlToText s = trim s"
  using assms
  by (simp add: htmlToText_def brRegex_def pCloseRegex_def tagRegex_def lit_Cons replaceAll_absent)

text \<open>
  C6 (amended). For every message whose top-level payload carries no body data,
  \<open>read_email\<close> takes the body from a scan of the top-level parts only: the first part of
  MIME type \<open>text/plain\<close> that carries body data, or the empty string when there is none.
  For every message, what lies below the top-level parts has no influence on the result,
  and the \<open>body\<close> field of the returned payload is the extracted body cut to at most
  5000 characters.
\<close>

theorem readEmail_body_scan:
  assumes "messages_get env mid (world st) = (Inr msg, w)"
    and "payload msg = Some p"
    and "mid \<noteq> []"
  shows "(\<exists>b. resultField ''body'' (fst (readEmail env (Some mid) st)) = Some (JStr b) \<and>
              length b \<le> 5000 \<and> b = substring0 5000 (extractBody env p)) \<and>
         extractBody env p = extractBody env (shallow p) \<and>
         (bodyData p = None \<longrightarrow>
            extractBody env p =
              (case find (\<lambda>q. mimeType q = Some (js ''text/plain'') \<and> bodyData q \<noteq> None) (partsOf p) of
                 None \<Rightarrow> []
               | Some q \<Rightarrow> base64ToString env (orEmpty (bodyData q))))"
proof (intro conjI impI)
  show "\<exists>b. resultField ''body'' (fst (readEmail env (Some mid) st)) = Some (JStr b) \<and>
              length b \<le> 5000 \<and> b = substring0 5000 (extractBody env p)"
    using body_of_readEmail[OF assms] by (simp add: substring0_def)
  show "extractBody env p = extractBody env (shallow p)"
    by (simp add: extractBody_shallow)
next
  assume "bodyData p = None"
  then show "extractBody env p =
      (case find (\<lambda>q. mimeType q = Some (js ''text/plain'') \<and> bodyData q \<noteq> None) (partsOf p) of
         None \<Rightarrow> []
       | Some q \<Rightarrow> base64ToString env (orEmpty (bodyData q)))"
    by (cases "parts p") (simp_all add: extractBody_def partsOf_def scanParts_find)
qed

text \<open>
  On the nested message the body is the top-level plain-text part \<open>outer\<close>; the plain-text
  part \<open>inner\<close>, which comes first but inside a nested container, is not looked at.
\<close>

theorem readEmail_body_scan_witness:
  "messages_get (demoEnv (messageOf nested) [] [] None) (js ''m1'') (world start) =
     (Inr (messageOf nested), 0) \<and>
   payload (messageOf nested) = Some nested \<and> js ''m1'' \<noteq> [] \<and> bodyData nested = None \<and>
   resultField ''body'' (fst (readEmail (demoEnv (messageOf nested) [] [] None) (Some (js ''m1'')) start)) =
     Some (JStr (js ''outer''))"
proof -
  let ?E = "demoEnv (messageOf nested) [] [] None"
  have 1: "messages_get ?E (js ''m1'') (world start) = (Inr (messageOf nested), 0)"
    by (simp add: demoEnv_def start_def)
  have 2: "payload (messageOf nested) = Some nested"
    by (simp add: messageOf_def)
  have 3: "js ''m1'' \<noteq> []"
    by (simp add: js_def)
  have 4: "bodyData nested = None"
    by (simp add: nested_def multipart_def bodyData_def)
  have 5: "substring0 5000 (extractBody ?E nested) = js ''outer''"
    by code_simp
  from readEmail_body_scan[OF 1 2 3] 1 2 3 4 5 show ?thesis
    by auto
qed

text \<open>
  C6 as stated fails on a single-part HTML message: there are no parts to scan, so a scan
  of the top-level parts for \<open>text/plain\<close> yields the empty string, while \<open>read_email\<close>
  returns the HTML body of the payload itself.
\<close>

theorem readEmail_scan_counterexample:
  "resultField ''body'' (fst (readEmail (demoEnv (messageOf htmlOnly) [] [] None) (Some (js ''m1'')) start)) =
     Some (JStr (js ''<b>hi</b>'')) \<and>
   scanParts (demoEnv (messageOf htmlOnly) [] [] None) (partsOf htmlOnly) = [] \<and>
   resultField ''body'' (fst (readEmail (demoEnv (messageOf htmlOnly) [] [] None) (Some (js ''m1'')) start)) \<noteq>
     Some (JStr (substring0 5000 (scanParts (demoEnv (messageOf htmlOnly) [] [] None) (partsOf htmlOnly))))"
  by code_simp

text \<open>
  C10. For every message whose top-level payload carries body data, \<open>extractBody\<close>
  returns that data decoded, whatever the MIME type of the payload and whatever parts it
  has, and \<open>read_email\<close> returns it (cut to 5000 characters like every body) in the \<open>body\<close>
  field; the scan of the parts for \<open>text/plain\<close> is what \<open>extractBody\<close> returns only when
  the payload carries no body data.
\<close>

theorem extractBody_direct:
  "(bodyData p = Some d \<longrightarrow> extractBody env p = base64ToString env d) \<and>
   (bodyData p = None \<longrightarrow> extractBody env p = scanParts env (partsOf p)) \<and>
   (bodyData p = Some d \<and> messages_get env mid (world st) = (Inr msg, w) \<and>
    payload msg = Some p \<and> mid \<noteq> [] \<longrightarrow>
      resultField ''body'' (fst (readEmail env (Some mid) st)) =
        Some (JStr (substring0 5000 (base64ToString env d))))"
proof (intro conjI impI)
  assume "bodyData p = Some d"
  then show "extractBody env p = base64ToString env d"
    by (simp add: extractBody_def)
next
  assume "bodyData p = None"
  then show "extractBody env p = scanParts env (partsOf p)"
    by (cases "parts p") (simp_all add: extractBody_def partsOf_def)
next
  assume a: "bodyData p = Some d \<and> messages_get env mid (world st) = (Inr msg, w) \<and>
    payload msg = Some p \<and> mid \<noteq> []"
  from a have d: "bodyData p = Some d" by (rule conjunct1)
  from a have g: "messages_get env mid (world st) = (Inr msg, w)" by (elim conjE)
  from a have pm: "payload msg = Some p" by (elim conjE)
  from a have m: "mid \<noteq> []" by (elim conjE)
  have "extractBody env p = base64ToString env d"
    using d by (simp add: extractBody_def)
  with body_of_readEmail[OF g pm m]
  show "resultField ''body'' (fst (readEmail env (Some mid) st)) =
      Some (JStr (substring0 5000 (base64ToString env d)))"
    by (simp only:)
qed

text \<open>The single-part HTML message: its HTML body is what \<open>read_email\<close> returns.\<close>

theorem extractBody_direct_witness:
  "bodyData htmlOnly = Some (js ''<b>hi</b>'') \<and>
   mimeType htmlOnly = Some (js ''text/html'') \<and>
   messages_get (demoEnv (messageOf htmlOnly) [] [] None) (js ''m1'') (world start) =
     (Inr (messageOf htmlOnly), 0) \<and>
   payload (messageOf htmlOnly) = Some htmlOnly \<and> js ''m1'' \<noteq> [] \<and>
   extractBody (demoEnv (messageOf htmlOnly) [] [] None) htmlOnly = js ''<b>hi</b>'' \<and>
   resultField ''body'' (fst (readEmail (demoEnv (messageOf htmlOnly) [] [] None) (Some (js ''m1'')) start)) =
     Some (JStr (js ''<b>hi</b>''))"
proof -
  let ?E = "demoEnv (messageOf htmlOnly) [] [] None"
  have 0: "bodyData htmlOnly = Some (js ''<b>hi</b>'')"
    by (simp add: htmlOnly_def textPart_def bodyData_def js_def)
  have t: "mimeType htmlOnly = Some (js ''text/html'')"
    by (simp add: htmlOnly_def textPart_def)
  have 1: "messages_get ?E (js ''m1'') (world start) = (Inr (messageOf htmlOnly), 0)"
    by (simp add: demoEnv_def start_def)
  have 2: "payload (messageOf htmlOnly) = Some htmlOnly"
    by (simp add: messageOf_def)
  have 3: "js ''m1'' \<noteq> []"
    by (simp add: js_def)
  have 4: "base64ToString ?E (js ''<b>hi</b>'') = js ''<b>hi</b>''"
    by (simp add: demoEnv_def)
  have 5: "substring0 5000 (js ''<b>hi</b>'') = js ''<b>hi</b>''"
    by (simp add: substring0_def js_def)
  note th = extractBody_direct[of htmlOnly "js ''<b>hi</b>''" ?E "js ''m1''" start "messageOf htmlOnly" 0]
  from th 0 have 6: "extractBody ?E htmlOnly = base64ToString ?E (js ''<b>hi</b>'')"
    by blast
  from th 0 1 2 3 have 7: "resultField ''body'' (fst (readEmail ?E (Some (js ''m1'')) start)) =
      Some (JStr (substring0 5000 (base64ToString ?E (js ''<b>hi</b>''))))"
    by blast
  show ?thesis
    using 0 t 1 2 3 6[unfolded 4] 7[unfolded 4 5] by (intro conjI)
qed

lemma extractContent_start:
  "htmlBody (extractContent env p noContent) = lastOr [] (bodiesOf env ''text/html'' (walk p))"
  "textBody (extractContent env p noContent) = lastOr [] (bodiesOf env ''text/plain'' (walk p))"
  "attachmentCount (extractContent env p noContent) = length (filter isAttachment (walk p))"
  by (simp_all add: extractContent_html extractContent_text extractContent_count noContent_def)

lemma readEmailHtml_result:
  assumes "messages_get env mid (world st) = (Inr msg, w)" "payload msg = Some p" "mid \<noteq> []"
  shows "resultField ''textContent'' (fst (readEmailHtml env (Some mid) st)) =
           Some (JStr (substring0 10000 (readableContent (extractContent env p noContent))))"
    and "resultField ''attachmentCount'' (fst (readEmailHtml env (Some mid) st)) =
           Some (JNum (int (attachmentCount (extractContent env p noContent))))"
    and "resultField ''hasHtml'' (fst (readEmailHtml env (Some mid) st)) =
           Some (JBool (htmlBody (extractContent env p noContent) \<noteq> []))"
  using assms by (simp_all add: readEmailHtml_def resultField_def Let_def)

text \<open>
  C3 (amended). For every message part tree, \<open>read_email_html\<close> walks the full MIME part
  tree, parents before their parts and parts in order, and keeps the last HTML body and the
  last plain-text body it meets (each assignment overwrites the one before); it counts the
  parts that carry both a non-empty file name and an attachment identifier; when the
  plain-text body it kept is empty and the HTML body is not, the readable content is
  derived from the HTML by turning \<open><br>\<close> into a newline and \<open></p>\<close> into two, stripping
  tags, unescaping \<open>&nbsp; &amp; &lt; &gt; &quot;\<close> and trimming, so that a text without
  \<open><\<close> and \<open>&\<close> only gets trimmed and other entities stay as they are; the returned
  \<open>textContent\<close> is cut to 10000 characters.
\<close>

theorem readEmailHtml_content:
  assumes "messages_get env mid (world st) = (Inr msg, w)"
    and "payload msg = Some p"
    and "mid \<noteq> []"
  shows "(let H = lastOr [] (bodiesOf env ''text/html'' (walk p));
              T = lastOr [] (bodiesOf env ''text/plain'' (walk p));
              R = (if T = [] \<and> H \<noteq> [] then htmlToText H else T);
              r = fst (readEmailHtml env (Some mid) st)
          in resultField ''textContent'' r = Some (JStr (substring0 10000 R)) \<and>
             length (substring0 10000 R) \<le> 10000 \<and>
             resultField ''hasHtml'' r = Some (JBool (H \<noteq> [])) \<and>
             resultField ''attachmentCount'' r =
               Some (JNum (int (length (filter isAttachment (walk p)))))) \<and>
         (\<forall>s. jc CHR ''<'' \<notin> set s \<and> jc CHR ''&'' \<notin> set s \<longrightarrow> htmlToText s = trim s) \<and>
         htmlToText (js ''<p>Hi&nbsp;<b>you</b> &amp; me<BR />x&lt;y&gt;z &quot;q&quot; &copy;</P>'') =
           js ''Hi you & me'' @ [0xA] @ js ''x<y>z '' @ [0x22] @ js ''q'' @ [0x22] @ js '' &copy;''"
proof (intro conjI allI impI)
  show "let H = lastOr [] (bodiesOf env ''text/html'' (walk p));
            T = lastOr [] (bodiesOf env ''text/plain'' (walk p));
            R = (if T = [] \<and> H \<noteq> [] then htmlToText H else T);
            r = fst (readEmailHtml env (Some mid) st)
        in resultField ''textContent'' r = Some (JStr (substring0 10000 R)) \<and>
           length (substring0 10000 R) \<le> 10000 \<and>
           resultField ''hasHtml'' r = Some (JBool (H \<noteq> [])) \<and>
           resultField ''attachmentCount'' r =
             Some (JNum (int (length (filter isAttachment (walk p)))))"
    unfolding Let_def readEmailHtml_result[OF assms] extractContent_start readableContent_def
    by (simp add: substring0_def)
next
  fix s assume "jc CHR ''<'' \<notin> set s \<and> jc CHR ''&'' \<notin> set s"
  then show "htmlToText s = trim s" by (simp add: htmlToText_plain)
next
  show "htmlToText (js ''<p>Hi&nbsp;<b>you</b> &amp; me<BR />x&lt;y&gt;z &quot;q&quot; &copy;</P>'') =
           js ''Hi you & me'' @ [0xA] @ js ''x<y>z '' @ [0x22] @ js ''q'' @ [0x22] @ js '' &copy;''"
    by code_simp
qed

text \<open>
  A message with two HTML parts and an attachment between them: the text is derived from
  the second HTML part, and one attachment is counted.
\<close>

theorem readEmailHtml_content_witness:
  "messages_get (demoEnv (messageOf htmlMail) [] [] None) (js ''m1'') (world start) =
     (Inr (messageOf htmlMail), 0) \<and>
   payload (messageOf htmlMail) = Some htmlMail \<and> js ''m1'' \<noteq> [] \<and>
   resultField ''textContent''
       (fst (readEmailHtml (demoEnv (messageOf htmlMail) [] [] None) (Some (js ''m1'')) start)) =
     Some (JStr (js ''Hi you & me'' @ [0xA] @ js ''x<y>z '' @ [0x22] @ js ''q'' @ [0x22] @ js '' &copy;'')) \<and>
   resultField ''hasHtml''
       (fst (readEmailHtml (demoEnv (messageOf htmlMail) [] [] None) (Some (js ''m1'')) start)) =
     Some (JBool True) \<and>
   resultField ''attachmentCount''
       (fst (readEmailHtml (demoEnv (messageOf htmlMail) [] [] None) (Some (js ''m1'')) start)) =
     Some (JNum 1)"
proof -
  let ?E = "demoEnv (messageOf htmlMail) [] [] None"
  let ?r = "fst (readEmailHtml ?E (Some (js ''m1'')) start)"
  let ?H = "lastOr [] (bodiesOf ?E ''text/html'' (walk htmlMail))"
  let ?T = "lastOr [] (bodiesOf ?E ''text/plain'' (walk htmlMail))"
  have 1: "messages_get ?E (js ''m1'') (world start) = (Inr (messageOf htmlMail), 0)"
    by (simp add: demoEnv_def start_def)
  have 2: "payload (messageOf htmlMail) = Some htmlMail"
    by (simp add: messageOf_def)
  have 3: "js ''m1'' \<noteq> []"
    by (simp add: js_def)
  have H: "?H = js ''<p>Hi&nbsp;<b>you</b> &amp; me<BR />x&lt;y&gt;z &quot;q&quot; &copy;</P>''"
    by code_simp
  have T: "?T = []"
    by code_simp
  have n: "length (filter isAttachment (walk htmlMail)) = 1"
    by code_simp
  have ne: "js ''<p>Hi&nbsp;<b>you</b> &amp; me<BR />x&lt;y&gt;z &quot;q&quot; &copy;</P>'' \<noteq> []"
    by (simp add: js_def)
  have len: "substring0 10000 (js ''Hi you & me'' @ [0xA] @ js ''x<y>z '' @ [0x22] @ js ''q'' @ [0x22] @ js '' &copy;'') =
     js ''Hi you & me'' @ [0xA] @ js ''x<y>z '' @ [0x22] @ js ''q'' @ [0x22] @ js '' &copy;''"
    by (simp add: substring0_def js_def)
  note th = readEmailHtml_content[OF 1 2 3]
  from th have conv: "htmlToText (js ''<p>Hi&nbsp;<b>you</b> &amp; me<BR />x&lt;y&gt;z &quot;q&quot; &copy;</P>'') =
           js ''Hi you & me'' @ [0xA] @ js ''x<y>z '' @ [0x22] @ js ''q'' @ [0x22] @ js '' &copy;''"
    by (elim conjE)
  from th have main: "resultField ''textContent'' ?r =
        Some (JStr (substring0 10000 (if ?T = [] \<and> ?H \<noteq> [] then htmlToText ?H else ?T))) \<and>
      resultField ''hasHtml'' ?r = Some (JBool (?H \<noteq> [])) \<and>
      resultField ''attachmentCount'' ?r = Some (JNum (int (length (filter isAttachment (walk htmlMail)))))"
    unfolding Let_def by (elim conjE) (intro conjI)
  from main have a: "resultField ''textContent'' ?r =
      Some (JStr (js ''Hi you & me'' @ [0xA] @ js ''x<y>z '' @ [0x22] @ js ''q'' @ [0x22] @ js '' &copy;''))"
    unfolding T H conv using ne len by simp
  from main have b: "resultField ''hasHtml'' ?r = Some (JBool True)"
    unfolding H using ne by simp
  from main have c: "resultField ''attachmentCount'' ?r = Some (JNum 1)"
    unfolding n by simp
  from 1 2 3 a b c show ?thesis by (intro conjI)
qed

text \<open>
  C3 as stated fails where two plain-text parts stand side by side: the first plain-text
  body met in the walk is \<open>first\<close>, and the \<open>textContent\<close> returned is \<open>second\<close>.
\<close>

theorem readEmailHtml_first_counterexample:
  "firstOr [] (bodiesOf (demoEnv (messageOf twoPlain) [] [] None) ''text/plain'' (walk twoPlain)) =
     js ''first'' \<and>
   resultField ''textContent''
       (fst (readEmailHtml (demoEnv (messageOf twoPlain) [] [] None) (Some (js ''m1'')) start)) =
     Some (JStr (js ''second'')) \<and>
   resultField ''textContent''
       (fst (readEmailHtml (demoEnv (messageOf twoPlain) [] [] None) (Some (js ''m1'')) start)) \<noteq>
     Some (JStr (substring0 10000
       (firstOr [] (bodiesOf (demoEnv (messageOf twoPlain) [] [] None) ''text/plain'' (walk twoPlain)))))"
  by code_simp

lemma find_invalid:
  "e \<in> set xs \<Longrightarrow> \<not> validateEmail e \<Longrightarrow> \<exists>x. find (\<lambda>email. \<not> validateEmail email) xs = Some x"
  by (induction xs) auto

lemma find_Some_invalid:
  "find (\<lambda>email. \<not> validateEmail email) xs = Some x \<Longrightarrow> x \<in> set xs \<and> \<not> validateEmail x"
  by (induction xs) (auto split: if_splits)

text \<open>
  C5. A \<open>send_email\<close> call whose subject is longer than 255 characters, or whose body is
  longer than 10000 characters, or one of whose addresses in \<open>to\<close>, \<open>cc\<close> or \<open>bcc\<close> fails
  \<open>validateEmail\<close>, throws a validation error and leaves the process as it was: the
  message is rejected, not cut, and no call has been made. With well-formed recipients a
  too long subject gives the subject error, and with a good subject a too long body gives
  the body error.
\<close>

theorem sendEmail_rejects:
  "(((\<exists>s. arg_subject args = Some s \<and> length s > 255) \<or>
     (\<exists>b. arg_body args = Some b \<and> length b > 10000) \<or>
     (\<exists>e. e \<in> set (orNil (arg_to args) @ orNil (arg_cc args) @ orNil (arg_bcc args)) \<and>
          \<not> validateEmail e)) \<longrightarrow>
      (\<exists>msg. sendEmail env args st = (Inl msg, st) \<and> validationMessage args msg)) \<and>
   ((\<exists>to s. arg_to args = Some to \<and> to \<noteq> [] \<and> arg_subject args = Some s \<and> length s > 255) \<longrightarrow>
      sendEmail env args st = (Inl (js ''Subject must be a string with max 255 characters''), st)) \<and>
   ((\<exists>to s b. arg_to args = Some to \<and> to \<noteq> [] \<and> arg_subject args = Some s \<and> s \<noteq> [] \<and>
        length s \<le> 255 \<and> arg_body args = Some b \<and> length b > 10000) \<longrightarrow>
      sendEmail env args st = (Inl (js ''Body must be a string with max 10000 characters''), st))"
proof (intro conjI impI)
  assume bad: "(\<exists>s. arg_subject args = Some s \<and> length s > 255) \<or>
     (\<exists>b. arg_body args = Some b \<and> length b > 10000) \<or>
     (\<exists>e. e \<in> set (orNil (arg_to args) @ orNil (arg_cc args) @ orNil (arg_bcc args)) \<and>
          \<not> validateEmail e)"
  let ?all = "orNil (arg_to args) @ orNil (arg_cc args) @ orNil (arg_bcc args)"
  show "\<exists>msg. sendEmail env args st = (Inl msg, st) \<and> validationMessage args msg"
  proof (cases "arg_to args = None \<or> length (orNil (arg_to args)) = 0")
    case True
    then show ?thesis by (auto simp: sendEmail_def Let_def validationMessage_def)
  next
    case to: False
    show ?thesis
    proof (cases "\<not> truthyStr (arg_subject args) \<or> length (orEmpty (arg_subject args)) > 255")
      case True
      with to show ?thesis by (auto simp: sendEmail_def Let_def validationMessage_def)
    next
      case subj: False
      show ?thesis
      proof (cases "\<not> truthyStr (arg_body args) \<or> length (orEmpty (arg_body args)) > 10000")
        case True
        with to subj show ?thesis by (auto simp: sendEmail_def Let_def validationMessage_def)
      next
        case body: False
        from bad subj body obtain e where e: "e \<in> set ?all" "\<not> validateEmail e"
          by auto
        then obtain x where x: "find (\<lambda>email. \<not> validateEmail email) ?all = Some x"
          using find_invalid by blast
        from find_Some_invalid[OF x] have "x \<in> set ?all" "\<not> validateEmail x" by simp_all
        then have "validationMessage args (js ''Invalid email address: '' @ x)"
          unfolding validationMessage_def by blast
        moreover have "sendEmail env args st = (Inl (js ''Invalid email address: '' @ x), st)"
          using to subj body x by (auto simp: sendEmail_def Let_def)
        ultimately show ?thesis by blast
      qed
    qed
  qed
next
  assume "\<exists>to s. arg_to args = Some to \<and> to \<noteq> [] \<and> arg_subject args = Some s \<and> length s > 255"
  then show "sendEmail env args st = (Inl (js ''Subject must be a string with max 255 characters''), st)"
    by (auto simp: sendEmail_def Let_def orNil_def)
next
  assume "\<exists>to s b. arg_to args = Some to \<and> to \<noteq> [] \<and> arg_subject args = Some s \<and> s \<noteq> [] \<and>
        length s \<le> 255 \<and> arg_body args = Some b \<and> length b > 10000"
  then show "sendEmail env args st = (Inl (js ''Body must be a string with max 10000 characters''), st)"
    by (auto simp: sendEmail_def Let_def orNil_def)
qed


text \<open>
  A subject of 256 characters is rejected with the subject error, and an address that is
  not an email address with the address error, the process unchanged in both cases; a
  subject of 255 characters goes out with one call to the mail API.
\<close>

theorem sendEmail_rejects_witness:
  "arg_to (mail 256 []) = Some [js ''a@b.co''] \<and> [js ''a@b.co''] \<noteq> [] \<and>
   arg_subject (mail 256 []) = Some (replicate 256 (jc CHR ''x'')) \<and>
   length (replicate 256 (jc CHR ''x'')) > 255 \<and>
   sendEmail (demoEnv (messageOf htmlOnly) [] [] None) (mail 256 []) start =
     (Inl (js ''Subject must be a string with max 255 characters''), start) \<and>
   sendEmail (demoEnv (messageOf htmlOnly) [] [] None) (mail 5 [js ''not-an-email'']) start =
     (Inl (js ''Invalid email address: not-an-email''), start) \<and>
   resultField ''success'' (fst (sendEmail (demoEnv (messageOf htmlOnly) [] [] None) (mail 255 []) start)) =
     Some (JBool True) \<and>
   length (apiCalls (trace (snd (sendEmail (demoEnv (messageOf htmlOnly) [] [] None) (mail 255 []) start)))) = 1"
proof -
  let ?E = "demoEnv (messageOf htmlOnly) [] [] None"
  have 1: "arg_to (mail 256 []) = Some [js ''a@b.co'']"
    by (simp add: mail_def)
  have 2: "arg_subject (mail 256 []) = Some (replicate 256 (jc CHR ''x''))"
    by (simp add: mail_def)
  have 3: "length (replicate 256 (jc CHR ''x'')) > 255"
    by simp
  have "\<exists>to s. arg_to (mail 256 []) = Some to \<and> to \<noteq> [] \<and> arg_subject (mail 256 []) = Some s \<and>
      length s > 255"
    using 1 2 3 by blast
  with sendEmail_rejects[of "mail 256 []" ?E start]
  have 4: "sendEmail ?E (mail 256 []) start =
      (Inl (js ''Subject must be a string with max 255 characters''), start)"
    by blast
  have 5: "sendEmail ?E (mail 5 [js ''not-an-email'']) start =
      (Inl (js ''Invalid email address: not-an-email''), start)"
    by code_simp
  have 6: "resultField ''success'' (fst (sendEmail ?E (mail 255 []) start)) = Some (JBool True)"
    by code_simp
  have 7: "length (apiCalls (trace (snd (sendEmail ?E (mail 255 []) start)))) = 1"
    by code_simp
  from 1 2 3 4 5 6 7 show ?thesis by simp
qed

lemma trace_emit [simp]: "trace (emit ev w st) = trace st @ [ev]"
  by (simp add: emit_def)

lemma world_emit [simp]: "world (emit ev w st) = w"
  by (simp add: emit_def)

lemma trace_auditLog:
  "trace (auditLog env l m st) = trace st @ [Audit l m] \<or>
   trace (auditLog env l m st) = trace st @ [Audit l m, ConsoleError]"
  by (auto simp: auditLog_def Let_def split: prod.splits option.splits)

lemma writes_append: "writes (xs @ ys) = writes xs @ writes ys"
  by (induction xs rule: writes.induct) auto

lemma steps_append: "steps (xs @ ys) = steps xs @ steps ys"
  by (induction xs rule: steps.induct) auto

lemma failures_append: "failures (xs @ ys) = failures xs @ failures ys"
  by (induction xs rule: failures.induct) auto


lemma apiCalls_append: "apiCalls (xs @ ys) = apiCalls xs @ apiCalls ys"
  by (induction xs rule: apiCalls.induct) auto

lemma writes_auditLog [simp]: "writes (trace (auditLog env l m st)) = writes (trace st)"
  using trace_auditLog[of env l m st] by (auto simp: writes_append)

lemma steps_auditLog [simp]: "steps (trace (auditLog env l m st)) = steps (trace st)"
  using trace_auditLog[of env l m st] by (auto simp: steps_append)

lemma failures_auditLog [simp]: "failures (trace (auditLog env l m st)) = failures (trace st)"
  using trace_auditLog[of env l m st] by (auto simp: failures_append)

lemma apiCalls_auditLog [simp]: "apiCalls (trace (auditLog env l m st)) = apiCalls (trace st)"
  using trace_auditLog[of env l m st] by (auto simp: apiCalls_append)


lemma downloadFail_fst [simp]: "fst (downloadFail env err st) = Inl (js ''Failed to download attachment: '' @ err)"
  by (simp add: downloadFail_def)

lemma downloadFail_writes [simp]: "writes (trace (snd (downloadFail env err st))) = writes (trace st)"
  by (simp add: downloadFail_def)








lemma mailCalls_append: "mailCalls (xs @ ys) = mailCalls xs @ mailCalls ys"
  by (induction xs rule: mailCalls.induct) auto

lemma mailCalls_auditLog [simp]: "mailCalls (trace (auditLog env l m st)) = mailCalls (trace st)"
  using trace_auditLog[of env l m st] by (auto simp: mailCalls_append)


lemma authenticate_mailCalls:
  "mailCalls (trace (proc (snd (authenticate env h sv)))) = mailCalls (trace (proc sv))"
  by (auto simp: authenticate_def authFail_def Let_def mailCalls_append split: prod.splits option.splits bool.splits)

lemma authenticate_requests:
  "requests (snd (authenticate env h sv)) = requests sv"
  by (auto simp: authenticate_def authFail_def Let_def split: prod.splits option.splits bool.splits)

lemma emptySpam_falsy:
  "\<not> truthy confirm \<Longrightarrow> emptySpam env confirm st = (Inr confirmationRequired, st)"
  by (simp add: emptySpam_def confirmationRequired_def)


lemma callTool_requests:
  "requests (snd (callTool env h now tool args run sv)) =
     snd (checkRateLimit (js ''default'') now (requests sv))"
proof (cases "checkRateLimit (js ''default'') now (requests sv)")
  case (Pair g reqs)
  show ?thesis
  proof (cases g)
    case False
    with Pair show ?thesis by (simp add: callTool_def)
  next
    case True
    show ?thesis
    proof (cases "gmail sv")
      case g: True
      with Pair True show ?thesis
        by (auto simp: callTool_def Let_def split: prod.splits sum.splits)
    next
      case g: False
      obtain e sv1 where a: "authenticate env h (sv\<lparr>requests := reqs\<rparr>) = (e, sv1)"
        by (cases "authenticate env h (sv\<lparr>requests := reqs\<rparr>)")
      have "requests sv1 = reqs"
        using authenticate_requests[of env h "sv\<lparr>requests := reqs\<rparr>"] a by simp
      with Pair True g a show ?thesis
        by (cases e) (auto simp: callTool_def Let_def split: prod.splits sum.splits)
    qed
  qed
qed

lemma callEmptySpam_mailCalls:
  assumes "\<not> truthy (map_of args ''confirm'')"
  shows "mailCalls (trace (proc (snd (callEmptySpam env h now args sv)))) = mailCalls (trace (proc sv))"
proof (cases "checkRateLimit (js ''default'') now (requests sv)")
  case (Pair g reqs)
  note f = emptySpam_falsy[OF assms]
  show ?thesis
  proof (cases g)
    case False
    with Pair show ?thesis by (simp add: callEmptySpam_def callTool_def)
  next
    case True
    show ?thesis
    proof (cases "gmail sv")
      case g: True
      with Pair True show ?thesis
        by (simp add: callEmptySpam_def callTool_def Let_def f)
    next
      case g: False
      obtain e sv1 where a: "authenticate env h (sv\<lparr>requests := reqs\<rparr>) = (e, sv1)"
        by (cases "authenticate env h (sv\<lparr>requests := reqs\<rparr>)")
      have "mailCalls (trace (proc sv1)) = mailCalls (trace (proc sv))"
        using authenticate_mailCalls[of env h "sv\<lparr>requests := reqs\<rparr>"] a by simp
      with Pair True g a show ?thesis
        by (cases e) (simp_all add: callEmptySpam_def callTool_def Let_def f)
    qed
  qed
qed

text \<open>
  C4 (amended). For an \<open>empty_spam\<close> call with \<open>confirm\<close> false, absent or otherwise falsy
  (\<open>null\<close>, \<open>0\<close>, the empty string): the \<open>emptySpam\<close> handler returns the refusal payload and
  the process it was given, with no effect of its own; the call as a whole makes no call
  to the mail API, whatever the rate limiter and the authentication do; and the state it
  does change is what the dispatcher changes before every handler: the rate-limit map gets
  the result of \<open>checkRateLimit\<close>, a server without a client handle is authenticated, and
  the audit log gets the \<open>Tool called\<close> entry. When the rate limiter grants the call and a
  client handle exists or the authentication succeeds, the refusal payload is what the
  call returns, and these are all the changes; when the rate limiter denies the call, it
  fails with the rate-limit error instead.
\<close>

theorem callEmptySpam_refusal:
  "(\<not> truthy (map_of args ''confirm'') \<longrightarrow>
      emptySpam env (map_of args ''confirm'') st = (Inr confirmationRequired, st) \<and>
      mailCalls (trace (proc (snd (callEmptySpam env h now args sv)))) = mailCalls (trace (proc sv)) \<and>
      requests (snd (callEmptySpam env h now args sv)) =
        snd (checkRateLimit (js ''default'') now (requests sv)) \<and>
      (fst (checkRateLimit (js ''default'') now (requests sv)) \<and> gmail sv \<longrightarrow>
         callEmptySpam env h now args sv =
           (Inr confirmationRequired,
            sv\<lparr>requests := snd (checkRateLimit (js ''default'') now (requests sv)),
               proc := auditLog env (js ''INFO'') (toolCalled h (js ''empty_spam'') args) (proc sv)\<rparr>)) \<and>
      (fst (checkRateLimit (js ''default'') now (requests sv)) \<and> \<not> gmail sv \<and>
       fst (authenticate env h
              (sv\<lparr>requests := snd (checkRateLimit (js ''default'') now (requests sv))\<rparr>)) = None \<longrightarrow>
         callEmptySpam env h now args sv =
           (Inr confirmationRequired,
            (snd (authenticate env h
                    (sv\<lparr>requests := snd (checkRateLimit (js ''default'') now (requests sv))\<rparr>)))
              \<lparr>proc := auditLog env (js ''INFO'') (toolCalled h (js ''empty_spam'') args)
                 (proc (snd (authenticate env h
                    (sv\<lparr>requests := snd (checkRateLimit (js ''default'') now (requests sv))\<rparr>))))\<rparr>)) \<and>
      (\<not> fst (checkRateLimit (js ''default'') now (requests sv)) \<longrightarrow>
         fst (callEmptySpam env h now args sv) =
           Inl (js ''Rate limit exceeded. Please wait before making more requests.''))) \<and>
   (\<not> truthy confirm \<longrightarrow> emptySpam env confirm st = (Inr confirmationRequired, st)) \<and>
   \<not> truthy (Some (JBool False)) \<and> \<not> truthy None \<and> \<not> truthy (Some JNull) \<and>
   \<not> truthy (Some (JNum 0)) \<and> \<not> truthy (Some (JStr []))"
proof (intro conjI impI)
  assume f: "\<not> truthy (map_of args ''confirm'')"
  show "emptySpam env (map_of args ''confirm'') st = (Inr confirmationRequired, st)"
    by (rule emptySpam_falsy[OF f])
  show "mailCalls (trace (proc (snd (callEmptySpam env h now args sv)))) = mailCalls (trace (proc sv))"
    by (rule callEmptySpam_mailCalls[OF f])
  show "requests (snd (callEmptySpam env h now args sv)) =
        snd (checkRateLimit (js ''default'') now (requests sv))"
    by (simp add: callEmptySpam_def callTool_requests)
  {
    assume "fst (checkRateLimit (js ''default'') now (requests sv)) \<and> gmail sv"
    then show "callEmptySpam env h now args sv =
           (Inr confirmationRequired,
            sv\<lparr>requests := snd (checkRateLimit (js ''default'') now (requests sv)),
               proc := auditLog env (js ''INFO'') (toolCalled h (js ''empty_spam'') args) (proc sv)\<rparr>)"
      by (cases "checkRateLimit (js ''default'') now (requests sv)")
         (simp add: callEmptySpam_def callTool_def Let_def emptySpam_falsy[OF f])
  }
  {
    assume "fst (checkRateLimit (js ''default'') now (requests sv)) \<and> \<not> gmail sv \<and>
       fst (authenticate env h
              (sv\<lparr>requests := snd (checkRateLimit (js ''default'') now (requests sv))\<rparr>)) = None"
    then show "callEmptySpam env h now args sv =
           (Inr confirmationRequired,
            (snd (authenticate env h
                    (sv\<lparr>requests := snd (checkRateLimit (js ''default'') now (requests sv))\<rparr>)))
              \<lparr>proc := auditLog env (js ''INFO'') (toolCalled h (js ''empty_spam'') args)
                 (proc (snd (authenticate env h
                    (sv\<lparr>requests := snd (checkRateLimit (js ''default'') now (requests sv))\<rparr>))))\<rparr>)"
      by (cases "checkRateLimit (js ''default'') now (requests sv)";
          cases "authenticate env h
              (sv\<lparr>requests := snd (checkRateLimit (js ''default'') now (requests sv))\<rparr>)")
         (simp add: callEmptySpam_def callTool_def Let_def emptySpam_falsy[OF f])
  }
  {
    assume "\<not> fst (checkRateLimit (js ''default'') now (requests sv))"
    then show "fst (callEmptySpam env h now args sv) =
           Inl (js ''Rate limit exceeded. Please wait before making more requests.'')"
      by (cases "checkRateLimit (js ''default'') now (requests sv)")
         (simp add: callEmptySpam_def callTool_def)
  }
next
  assume "\<not> truthy confirm"
  then show "emptySpam env confirm st = (Inr confirmationRequired, st)"
    by (rule emptySpam_falsy)
qed simp_all


text \<open>
  A server before its first authentication, with 120 messages in the spam folder, called
  with \<open>confirm: false\<close> at time 0: the call is granted, authenticates, returns the refusal,
  has made no call to the mail API, and has recorded its timestamp.
\<close>

theorem callEmptySpam_refusal_witness:
  "\<not> truthy (map_of [(''confirm'', JBool False)] ''confirm'') \<and>
   fst (checkRateLimit (js ''default'') 0 (requests cold)) \<and> \<not> gmail cold \<and>
   fst (authenticate (demoEnv (messageOf htmlOnly) (replicate 120 (Some (js ''s''))) [] None) demoHost
          (cold\<lparr>requests := snd (checkRateLimit (js ''default'') 0 (requests cold))\<rparr>)) = None \<and>
   fst (callEmptySpam (demoEnv (messageOf htmlOnly) (replicate 120 (Some (js ''s''))) [] None) demoHost 0
          [(''confirm'', JBool False)] cold) = Inr confirmationRequired \<and>
   mailCalls (trace (proc (snd (callEmptySpam
      (demoEnv (messageOf htmlOnly) (replicate 120 (Some (js ''s''))) [] None) demoHost 0
          [(''confirm'', JBool False)] cold)))) = [] \<and>
   requests (snd (callEmptySpam (demoEnv (messageOf htmlOnly) (replicate 120 (Some (js ''s''))) [] None)
          demoHost 0 [(''confirm'', JBool False)] cold)) (js ''default'') = Some [0] \<and>
   gmail (snd (callEmptySpam (demoEnv (messageOf htmlOnly) (replicate 120 (Some (js ''s''))) [] None)
          demoHost 0 [(''confirm'', JBool False)] cold))"
proof -
  let ?E = "demoEnv (messageOf htmlOnly) (replicate 120 (Some (js ''s''))) [] None"
  let ?args = "[(''confirm'', JBool False)]"
  let ?R = "snd (checkRateLimit (js ''default'') 0 (requests cold))"
  let ?r = "callEmptySpam ?E demoHost 0 ?args cold"
  have 1: "\<not> truthy (map_of ?args ''confirm'')" by simp
  have 2: "fst (checkRateLimit (js ''default'') 0 (requests cold))"
    by (simp add: checkRateLimit_def cold_def maxRequests_def)
  have 3: "\<not> gmail cold" by (simp add: cold_def)
  have 4: "fst (authenticate ?E demoHost (cold\<lparr>requests := ?R\<rparr>)) = None"
    by (simp add: authenticate_def demoHost_def Let_def)
  have 5: "mailCalls (trace (proc cold)) = []" by (simp add: cold_def start_def)
  have 6: "?R (js ''default'') = Some [0]"
    by (simp add: checkRateLimit_def cold_def maxRequests_def windowMs_def)
  have 7: "gmail (snd (authenticate ?E demoHost (cold\<lparr>requests := ?R\<rparr>)))"
    by (simp add: authenticate_def demoHost_def Let_def)
  note th = callEmptySpam_refusal[of ?args ?E start demoHost 0 cold]
  from th 1 have m: "mailCalls (trace (proc (snd ?r))) = mailCalls (trace (proc cold))"
    by blast
  from th 1 have q: "requests (snd ?r) = ?R" by blast
  from th 1 2 3 4 have e: "?r =
      (Inr confirmationRequired,
       (snd (authenticate ?E demoHost (cold\<lparr>requests := ?R\<rparr>)))
         \<lparr>proc := auditLog ?E (js ''INFO'') (toolCalled demoHost (js ''empty_spam'') ?args)
            (proc (snd (authenticate ?E demoHost (cold\<lparr>requests := ?R\<rparr>))))\<rparr>)"
    by blast
  from e have a: "fst ?r = Inr confirmationRequired" by simp
  from e 7 have g: "gmail (snd ?r)" by simp
  from m 5 have b: "mailCalls (trace (proc (snd ?r))) = []" by simp
  from q 6 have c: "requests (snd ?r) (js ''default'') = Some [0]" by simp
  from 1 2 3 4 a b c g show ?thesis by (intro conjI)
qed

text \<open>
  C4 as stated fails at the call: on a server with its client handle in place, an
  \<open>empty_spam\<close> call with \<open>confirm: false\<close> returns the refusal, and the process state is
  not what it was, since the rate-limit map has the timestamp of the call and the audit
  log has an entry.
\<close>

theorem callEmptySpam_state_counterexample:
  "fst (callEmptySpam (demoEnv (messageOf htmlOnly) (replicate 120 (Some (js ''s''))) [] None) demoHost 0
          [(''confirm'', JBool False)] warm) = Inr confirmationRequired \<and>
   requests warm (js ''default'') = None \<and>
   requests (snd (callEmptySpam (demoEnv (messageOf htmlOnly) (replicate 120 (Some (js ''s''))) [] None)
          demoHost 0 [(''confirm'', JBool False)] warm)) (js ''default'') = Some [0] \<and>
   trace (proc warm) = [] \<and>
   trace (proc (snd (callEmptySpam (demoEnv (messageOf htmlOnly) (replicate 120 (Some (js ''s''))) [] None)
          demoHost 0 [(''confirm'', JBool False)] warm))) =
     [Audit (js ''INFO'')
        (js ''Tool called: empty_spam with args: {'' @ [0x22] @ js ''confirm'' @ [0x22] @ js '':false}'')] \<and>
   snd (callEmptySpam (demoEnv (messageOf htmlOnly) (replicate 120 (Some (js ''s''))) [] None) demoHost 0
          [(''confirm'', JBool False)] warm) \<noteq> warm"
proof -
  let ?E = "demoEnv (messageOf htmlOnly) (replicate 120 (Some (js ''s''))) [] None"
  let ?r = "callEmptySpam ?E demoHost 0 [(''confirm'', JBool False)] warm"
  have a: "fst ?r = Inr confirmationRequired" by code_simp
  have b: "requests warm (js ''default'') = None" by (simp add: warm_def)
  have c: "requests (snd ?r) (js ''default'') = Some [0]" by code_simp
  have d: "trace (proc warm) = []" by (simp add: warm_def start_def)
  have e: "trace (proc (snd ?r)) =
     [Audit (js ''INFO'')
        (js ''Tool called: empty_spam with args: {'' @ [0x22] @ js ''confirm'' @ [0x22] @ js '':false}'')]"
    by code_simp
  have f: "snd ?r \<noteq> warm"
  proof
    assume "snd ?r = warm"
    then have "requests (snd ?r) (js ''default'') = requests warm (js ''default'')" by simp
    with b c show False by simp
  qed
  from a b c d e f show ?thesis by (intro conjI)
qed





end
